theory Spec2Isabelle
  imports Main
begin

section \<open>A model of \<open>indexer.py\<close>\<close>

text \<open>
  The program walks a directory tree, computes the MD5 digest of each file, assigns a
  category from the path and the extension, and records each new digest as a row in a
  PostgreSQL table. The functions of the source are modelled below under their own names
  (without the leading underscore); what the program asks of the file system, the
  regular expression library, the digest and the database is a parameter of the model.
\<close>

section \<open>Python string helpers used by the indexer\<close>

text \<open>
  Strings are \<^typ>\<open>string\<close> (lists of 8-bit characters). \<open>str.lower\<close> maps the ASCII
  capitals to small letters and leaves every other character alone; Python's case mapping
  of characters beyond ASCII is not modelled.
\<close>

definition lower_char :: "char \<Rightarrow> char" where
  "lower_char c =
     (case map_of (zip ''ABCDEFGHIJKLMNOPQRSTUVWXYZ'' ''abcdefghijklmnopqrstuvwxyz'') c of
        Some d \<Rightarrow> d
      | None \<Rightarrow> c)"

definition lower :: "string \<Rightarrow> string" where
  "lower s = map lower_char s"

text \<open>\<open>s.startswith(k)\<close>.\<close>

fun startswith :: "string \<Rightarrow> string \<Rightarrow> bool" where
  "startswith s [] = True"
| "startswith [] (k # ks) = False"
| "startswith (c # cs) (k # ks) = (c = k \<and> startswith cs ks)"

text \<open>\<open>k in s\<close> for strings: \<open>k\<close> occurs in \<open>s\<close> as a contiguous substring.\<close>

fun contains :: "string \<Rightarrow> string \<Rightarrow> bool" where
  "contains [] k = (k = [])"
| "contains (c # cs) k = (startswith (c # cs) k \<or> contains cs k)"

text \<open>\<open>any(keyword in s for keyword in keywords)\<close>.\<close>

definition any_keyword_in :: "string list \<Rightarrow> string \<Rightarrow> bool" where
  "any_keyword_in keywords s = list_ex (\<lambda>keyword. contains s keyword) keywords"

section \<open>The categorizer: \<open>_detect_category\<close>\<close>

text \<open>
  The two dictionaries of the source, as association lists in insertion order (the order
  in which Python iterates over a dict).
\<close>

definition categories :: "(string \<times> string list) list" where
  "categories =
     [(''movie'', [''movie'', ''movies'']),
      (''tv show'', [''tv'', ''show'', ''shows'', ''series'']),
      (''book'', [''book'', ''books'']),
      (''audiobook'', [''audiobook'', ''audiobooks''])]"

definition extension_categories :: "(string \<times> string list) list" where
  "extension_categories =
     [(''audio'', [''.mp3'', ''.wav'', ''.flac'']),
      (''video'', [''.mp4'', ''.avi'', ''.mkv'', ''.mov'']),
      (''picture'', [''.jpg'', ''.jpeg'', ''.png'', ''.gif'', ''.bmp'']),
      (''plaintext'', [''.txt'', ''.md'', ''.log'']),
      (''document'', [''.pdf'', ''.doc'', ''.docx'', ''.xls'', ''.xlsx'', ''.ppt'', ''.pptx''])]"

text \<open>
  The first loop: the first category one of whose keywords occurs in the lowercased path.
\<close>

fun path_category :: "(string \<times> string list) list \<Rightarrow> string \<Rightarrow> string option" where
  "path_category [] file_path = None"
| "path_category ((category, keywords) # rest) file_path =
     (if any_keyword_in keywords (lower file_path) then Some category
      else path_category rest file_path)"

text \<open>
  The second loop: the first category whose extension list holds the lowercased extension.
\<close>

fun extension_category :: "(string \<times> string list) list \<Rightarrow> string \<Rightarrow> string option" where
  "extension_category [] file_extension = None"
| "extension_category ((category, extensions) # rest) file_extension =
     (if lower file_extension \<in> set extensions then Some category
      else extension_category rest file_extension)"

definition detect_category :: "string \<Rightarrow> string \<Rightarrow> string" where
  "detect_category file_path file_extension =
     (case path_category categories file_path of
        Some category \<Rightarrow> category
      | None \<Rightarrow>
          (case extension_category extension_categories file_extension of
             Some category \<Rightarrow> category
           | None \<Rightarrow> ''other''))"

text \<open>Every keyword of the path phase, in dictionary order.\<close>

definition category_keywords :: "string list" where
  "category_keywords = concat (map snd categories)"

section \<open>Paths and lines\<close>

text \<open>\<open>s.endswith(k)\<close>.\<close>

definition endswith :: "string \<Rightarrow> string \<Rightarrow> bool" where
  "endswith s k = startswith (rev s) (rev k)"

text \<open>\<open>os.path.join(a, b)\<close> of \<open>posixpath\<close>, for two arguments.\<close>

definition path_join :: "string \<Rightarrow> string \<Rightarrow> string" where
  "path_join a b =
     (if startswith b ''/'' then b
      else if a = [] \<or> endswith a ''/'' then a @ b
      else a @ ''/'' @ b)"

text \<open>
  \<open>s.rfind(c)\<close>: the last index at which \<open>c\<close> stands in \<open>s\<close>, or \<open>-1\<close>. The helper
  scans from the left with the current index and the last index seen so far.
\<close>

fun rfind_from :: "string \<Rightarrow> char \<Rightarrow> int \<Rightarrow> int \<Rightarrow> int" where
  "rfind_from [] c i found = found"
| "rfind_from (x # xs) c i found = rfind_from xs c (i + 1) (if x = c then i else found)"

definition rfind :: "string \<Rightarrow> char \<Rightarrow> int" where
  "rfind s c = rfind_from s c 0 (- 1)"

text \<open>
  \<open>os.path.splitext(p)\<close>: the extension starts at the last dot, if that dot comes after
  the last slash and some character between the slash and the dot is not a dot (leading
  dots of a name do not start an extension).
\<close>

definition splitext :: "string \<Rightarrow> string \<times> string" where
  "splitext p =
     (let sepIndex = rfind p (CHR ''/'');
          dotIndex = rfind p (CHR ''.'')
      in if dotIndex > sepIndex \<and>
            list_ex (\<lambda>ch. ch \<noteq> CHR ''.'')
              (take (nat (dotIndex - (sepIndex + 1))) (drop (nat (sepIndex + 1)) p))
         then (take (nat dotIndex) p, drop (nat dotIndex) p)
         else (p, []))"

text \<open>
  \<open>str.strip()\<close>: whitespace is removed at both ends. The whitespace characters are the
  ASCII ones (tab, line feed, vertical tab, form feed, carriage return, the four
  separators \<open>0x1C\<close> to \<open>0x1F\<close>, and the space).
\<close>

definition isspace :: "char \<Rightarrow> bool" where
  "isspace c =
     (c \<in> set [CHR 0x09, CHR 0x0A, CHR 0x0B, CHR 0x0C, CHR 0x0D,
                CHR 0x1C, CHR 0x1D, CHR 0x1E, CHR 0x1F, CHR 0x20])"

definition strip :: "string \<Rightarrow> string" where
  "strip s = rev (dropWhile isspace (rev (dropWhile isspace s)))"

section \<open>The world outside the program\<close>

text \<open>
  Python exceptions the program can meet: \<open>OSError\<close> from the file system, \<open>re.error\<close>
  from \<open>re.compile\<close>, and the errors \<open>psycopg2\<close> raises for a statement on a missing
  table and for a violated uniqueness constraint. (A failed connection is caught where it
  is raised; the field \<open>connect_ok\<close> below says whether it happens.)
\<close>

datatype exn = OSError | ReError | UndefinedTable | UniqueViolation

text \<open>
  A row of \<open>indexed_files\<close>, with the five columns the program writes. The columns \<open>id\<close>
  and \<open>date_indexed\<close> are filled in by the database and are never read by the program, and
  the column widths are not modelled.
\<close>

record indexed_file =
  file_name :: string
  path :: string
  md5_hash :: string
  file_size :: nat
  category :: string

text \<open>
  Everything the program asks of its environment, fixed for one run:
  \<^item> \<open>connect_ok\<close>: \<open>psycopg2.connect\<close> succeeds;
  \<^item> \<open>create_ok\<close>: the \<open>CREATE TABLE IF NOT EXISTS\<close> statement succeeds;
  \<^item> \<open>path_exists\<close>: \<open>os.path.exists\<close>;
  \<^item> \<open>readlines\<close>: opening a file in text mode and reading its lines, or the exception;
  \<^item> \<open>re_compiles\<close>: \<open>re.compile\<close> accepts the pattern text (a compiled pattern is
    represented by its text);
  \<^item> \<open>re_search\<close>: \<open>pattern.search(s)\<close> finds a match;
  \<^item> \<open>os_walk\<close>: the triples \<open>(root, dirs, files)\<close> that \<open>os.walk\<close> yields;
  \<^item> \<open>getsize\<close>: \<open>os.path.getsize\<close>, or the exception;
  \<^item> \<open>read_bytes\<close>: opening a file in binary mode and reading it to the end in chunks, or
    the exception met on the way;
  \<^item> \<open>md5_hexdigest\<close>: the MD5 hex digest of a byte string (feeding the chunks one by one
    gives the digest of their concatenation);
  \<^item> \<open>other_sessions\<close>: the rows that other database sessions commit between the lookup
    and the insert made for the file at the given path (none when the program is the only
    writer).
\<close>

record world =
  connect_ok :: bool
  create_ok :: bool
  path_exists :: "string \<Rightarrow> bool"
  readlines :: "string \<Rightarrow> exn + string list"
  re_compiles :: "string \<Rightarrow> bool"
  re_search :: "string \<Rightarrow> string \<Rightarrow> bool"
  os_walk :: "string \<Rightarrow> (string \<times> string list \<times> string list) list"
  getsize :: "string \<Rightarrow> exn + nat"
  read_bytes :: "string \<Rightarrow> exn + string"
  md5_hexdigest :: "string \<Rightarrow> string"
  other_sessions :: "string \<Rightarrow> indexed_file list"

text \<open>
  The calls that reach outside the program, in the order in which a run makes them.
  Logging is not recorded.
\<close>

datatype event =
    Connect
  | CreateTable
  | Commit
  | PathExists string
  | ReadLines string
  | Walk string
  | Getsize string
  | ReadBytes string
  | Select string
  | Insert indexed_file
  | Close

text \<open>
  The state a run threads through: the table \<open>indexed_files\<close> of the store (\<open>None\<close> while
  the table does not exist), the local list \<open>file_index\<close> of \<open>_index_directory\<close>, and
  the calls made so far.
\<close>

record state =
  table :: "indexed_file list option"
  file_index :: "indexed_file list"
  trace :: "event list"

definition emit :: "event \<Rightarrow> state \<Rightarrow> state" where
  "emit e st = st\<lparr>trace := trace st @ [e]\<rparr>"

section \<open>The store\<close>

text \<open>The rows of the table; none while the table does not exist.\<close>

definition table_rows :: "state \<Rightarrow> indexed_file list" where
  "table_rows st = (case table st of None \<Rightarrow> [] | Some table_content \<Rightarrow> table_content)"

definition stored_hashes :: "state \<Rightarrow> string set" where
  "stored_hashes st = set (map md5_hash (table_rows st))"

text \<open>
  \<open>SELECT * FROM indexed_files WHERE md5_hash = %s\<close> followed by \<open>fetchone\<close>: the first
  row with that hash, if any. The statement fails when the table does not exist.
\<close>

definition db_select :: "string \<Rightarrow> state \<Rightarrow> (exn + indexed_file option) \<times> state" where
  "db_select file_hash st =
     (case table st of
        None \<Rightarrow> (Inl UndefinedTable, emit (Select file_hash) st)
      | Some table_content \<Rightarrow>
          (Inr (find (\<lambda>r. md5_hash r = file_hash) table_content), emit (Select file_hash) st))"

text \<open>
  A row committed under the constraint \<open>md5_hash VARCHAR(32) UNIQUE\<close>: it is refused when a
  row with its hash is in the table.
\<close>

definition add_row :: "indexed_file \<Rightarrow> indexed_file list \<Rightarrow> indexed_file list option" where
  "add_row r table_content =
     (if md5_hash r \<in> set (map md5_hash table_content) then None else Some (table_content @ [r]))"

text \<open>The commits of other sessions, each under the same constraint.\<close>

fun commit_others :: "indexed_file list \<Rightarrow> indexed_file list \<Rightarrow> indexed_file list" where
  "commit_others [] table_content = table_content"
| "commit_others (r # rs) table_content =
     (case add_row r table_content of
        None \<Rightarrow> commit_others rs table_content
      | Some table_content' \<Rightarrow> commit_others rs table_content')"

text \<open>
  The \<open>INSERT\<close> statement and the \<open>commit\<close> after it. What other sessions committed since
  the lookup is in the table when the statement runs; a row with the same hash makes the
  statement raise, and then nothing of this session is committed.
\<close>

definition db_insert :: "world \<Rightarrow> indexed_file \<Rightarrow> state \<Rightarrow> (exn + unit) \<times> state" where
  "db_insert w entry st =
     (case table st of
        None \<Rightarrow> (Inl UndefinedTable, emit (Insert entry) st)
      | Some table_content \<Rightarrow>
          (let current = commit_others (other_sessions w (path entry)) table_content in
           case add_row entry current of
             None \<Rightarrow> (Inl UniqueViolation, emit (Insert entry) (st\<lparr>table := Some current\<rparr>))
           | Some table_content' \<Rightarrow>
               (Inr (), emit Commit (emit (Insert entry) (st\<lparr>table := Some table_content'\<rparr>)))))"

section \<open>The functions of \<open>indexer.py\<close>\<close>

text \<open>
  \<open>_calculate_md5\<close>: the digest of the file's bytes, or \<open>None\<close> when opening or reading
  raises (the exception is caught and logged).
\<close>

definition calculate_md5 :: "world \<Rightarrow> string \<Rightarrow> state \<Rightarrow> string option \<times> state" where
  "calculate_md5 w file_path st =
     (case read_bytes w file_path of
        Inl e \<Rightarrow> (None, emit (ReadBytes file_path) st)
      | Inr content \<Rightarrow> (Some (md5_hexdigest w content), emit (ReadBytes file_path) st))"

text \<open>
  The list comprehension of \<open>_load_exclusion_patterns\<close>: \<open>re.compile\<close> of each stripped
  line in turn; the first pattern that does not compile raises.
\<close>

fun compile_all :: "world \<Rightarrow> string list \<Rightarrow> exn + string list" where
  "compile_all w [] = Inr []"
| "compile_all w (s # rest) =
     (if re_compiles w s
      then (case compile_all w rest of Inl e \<Rightarrow> Inl e | Inr patterns \<Rightarrow> Inr (s # patterns))
      else Inl ReError)"

text \<open>The lines that \<open>if line.strip()\<close> keeps, stripped.\<close>

definition pattern_lines :: "string list \<Rightarrow> string list" where
  "pattern_lines file_lines = filter (\<lambda>s. s \<noteq> []) (map strip file_lines)"

text \<open>
  \<open>_load_exclusion_patterns\<close>. Every exception raised while the file is read or a pattern
  is compiled is caught, and the function then returns the empty list.
\<close>

definition load_exclusion_patterns :: "world \<Rightarrow> string \<Rightarrow> state \<Rightarrow> string list \<times> state" where
  "load_exclusion_patterns w directory st =
     (let exclude_file_path = path_join directory ''.exclude_patterns'';
          st1 = emit (PathExists exclude_file_path) st
      in if path_exists w exclude_file_path then
           (case readlines w exclude_file_path of
              Inl e \<Rightarrow> ([], emit (ReadLines exclude_file_path) st1)
            | Inr file_lines \<Rightarrow>
                (case compile_all w (pattern_lines file_lines) of
                   Inl e \<Rightarrow> ([], emit (ReadLines exclude_file_path) st1)
                 | Inr patterns \<Rightarrow> (patterns, emit (ReadLines exclude_file_path) st1)))
         else ([], st1))"

text \<open>\<open>_should_exclude\<close>.\<close>

fun should_exclude :: "world \<Rightarrow> string \<Rightarrow> string list \<Rightarrow> bool" where
  "should_exclude w file_path [] = False"
| "should_exclude w file_path (pattern # rest) =
     (if re_search w pattern file_path then True else should_exclude w file_path rest)"

text \<open>
  \<open>_create_database\<close>. The exception of a failing statement is caught and logged at level
  \<open>critical\<close>; the function returns normally either way. After a failure the table is as
  it was before; what the failed statement does to the transaction of the session is not
  modelled.
\<close>

definition create_database :: "world \<Rightarrow> state \<Rightarrow> state" where
  "create_database w st =
     (if create_ok w
      then emit Commit (emit CreateTable (st\<lparr>table := Some (table_rows st)\<rparr>))
      else emit CreateTable st)"

text \<open>\<open>os.path.getsize\<close>, recorded.\<close>

definition os_getsize :: "world \<Rightarrow> string \<Rightarrow> state \<Rightarrow> (exn + nat) \<times> state" where
  "os_getsize w file_path st = (getsize w file_path, emit (Getsize file_path) st)"

text \<open>
  The body of the inner loop of \<open>_index_directory\<close>, for the file \<open>name\<close> of the directory
  \<open>root\<close>. \<open>Inr ()\<close> is the end of the iteration (by \<open>continue\<close> or at the end of the
  body); \<open>Inl e\<close> is an exception that leaves the body, and no handler in
  \<open>_index_directory\<close> or in \<open>indexer\<close> catches it.
\<close>

definition index_file ::
  "world \<Rightarrow> string list \<Rightarrow> string \<Rightarrow> string \<Rightarrow> state \<Rightarrow> (exn + unit) \<times> state" where
  "index_file w exclude_patterns root name st =
     (if name = ''.exclude_patterns'' then (Inr (), st)
      else
        let file_path = path_join root name in
        if should_exclude w file_path exclude_patterns then (Inr (), st)
        else
          (case os_getsize w file_path st of
             (Inl e, st1) \<Rightarrow> (Inl e, st1)
           | (Inr fsize, st1) \<Rightarrow>
               let file_extension = snd (splitext name) in
               (case calculate_md5 w file_path st1 of
                  (None, st2) \<Rightarrow> (Inr (), st2)
                | (Some file_hash, st2) \<Rightarrow>
                    (case db_select file_hash st2 of
                       (Inl e, st3) \<Rightarrow> (Inl e, st3)
                     | (Inr (Some existing_file), st3) \<Rightarrow> (Inr (), st3)
                     | (Inr None, st3) \<Rightarrow>
                         let file_category = detect_category file_path file_extension;
                             entry = \<lparr>file_name = name, path = file_path, md5_hash = file_hash,
                                      file_size = fsize, category = file_category\<rparr>
                         in (case db_insert w entry st3 of
                               (Inl e, st4) \<Rightarrow> (Inl e, st4)
                             | (Inr u, st4) \<Rightarrow>
                                 (Inr (), st4\<lparr>file_index := file_index st4 @ [entry]\<rparr>))))))"

text \<open>The inner loop, over the files of one directory.\<close>

fun index_files ::
  "world \<Rightarrow> string list \<Rightarrow> string \<Rightarrow> string list \<Rightarrow> state \<Rightarrow> (exn + unit) \<times> state" where
  "index_files w exclude_patterns root [] st = (Inr (), st)"
| "index_files w exclude_patterns root (name # files) st =
     (case index_file w exclude_patterns root name st of
        (Inl e, st') \<Rightarrow> (Inl e, st')
      | (Inr u, st') \<Rightarrow> index_files w exclude_patterns root files st')"

text \<open>The outer loop, over the triples of \<open>os.walk\<close>.\<close>

fun index_walk ::
  "world \<Rightarrow> string list \<Rightarrow> (string \<times> string list \<times> string list) list \<Rightarrow> state \<Rightarrow>
     (exn + unit) \<times> state" where
  "index_walk w exclude_patterns [] st = (Inr (), st)"
| "index_walk w exclude_patterns ((root, dirs, files) # rest) st =
     (case index_files w exclude_patterns root files st of
        (Inl e, st') \<Rightarrow> (Inl e, st')
      | (Inr u, st') \<Rightarrow> index_walk w exclude_patterns rest st')"

text \<open>\<open>_index_directory\<close>: the list \<open>file_index\<close> starts empty and is returned at the end.\<close>

definition index_directory ::
  "world \<Rightarrow> string \<Rightarrow> string list \<Rightarrow> state \<Rightarrow> (exn + indexed_file list) \<times> state" where
  "index_directory w directory exclude_patterns st =
     (case index_walk w exclude_patterns (os_walk w directory)
             (emit (Walk directory) (st\<lparr>file_index := []\<rparr>)) of
        (Inl e, st') \<Rightarrow> (Inl e, st')
      | (Inr u, st') \<Rightarrow> (Inr (file_index st'), st'))"

text \<open>
  How a call of \<open>indexer\<close> ends: it returns after the failed connection, it returns at the
  end with the number of entries it logged, or an exception leaves it.
\<close>

datatype outcome = ConnectFailed | Completed nat | Raised exn

text \<open>\<open>indexer\<close>, run against the store whose table is \<open>table0\<close>.\<close>

definition indexer :: "world \<Rightarrow> string \<Rightarrow> indexed_file list option \<Rightarrow> outcome \<times> state" where
  "indexer w directory table0 =
     (let st0 = \<lparr>table = table0, file_index = [], trace = [Connect]\<rparr> in
      if \<not> connect_ok w then (ConnectFailed, st0)
      else
        let st1 = create_database w st0;
            (exclude_patterns, st2) = load_exclusion_patterns w directory st1
        in (case index_directory w directory exclude_patterns st2 of
              (Inl e, st3) \<Rightarrow> (Raised e, st3)
            | (Inr file_index', st3) \<Rightarrow> (Completed (length file_index'), emit Close st3)))"

section \<open>The walk as one loop\<close>

text \<open>
  The pairs \<open>(root, name)\<close> in the order in which the two nested loops of
  \<open>_index_directory\<close> reach them, and the loop body run over such a list.
\<close>

definition walk_entries :: "(string \<times> string list \<times> string list) list \<Rightarrow> (string \<times> string) list" where
  "walk_entries walk = concat (map (\<lambda>(root, dirs, files). map (Pair root) files) walk)"

fun index_entries ::
  "world \<Rightarrow> string list \<Rightarrow> (string \<times> string) list \<Rightarrow> state \<Rightarrow> (exn + unit) \<times> state" where
  "index_entries w exclude_patterns [] st = (Inr (), st)"
| "index_entries w exclude_patterns ((root, name) # rest) st =
     (case index_file w exclude_patterns root name st of
        (Inl e, st') \<Rightarrow> (Inl e, st')
      | (Inr u, st') \<Rightarrow> index_entries w exclude_patterns rest st')"

text \<open>The rows of the \<open>INSERT\<close> statements among the calls of a trace.\<close>

fun inserted :: "event list \<Rightarrow> indexed_file list" where
  "inserted [] = []"
| "inserted (Insert r # events) = r # inserted events"
| "inserted (e # events) = inserted events"

text \<open>
  Running the loop body for the file \<open>name\<close> of \<open>root\<close> in the state \<open>st\<close> adds no row: the
  table and \<open>file_index\<close> are as before, no \<open>INSERT\<close> is issued, and the iteration ends
  normally unless the size query for that file raised.
\<close>

definition inserts_nothing :: "world \<Rightarrow> string list \<Rightarrow> string \<Rightarrow> string \<Rightarrow> state \<Rightarrow> bool" where
  "inserts_nothing w exclude_patterns root name st =
     (case index_file w exclude_patterns root name st of
        (res, st') \<Rightarrow>
          table st' = table st \<and> file_index st' = file_index st \<and>
          inserted (trace st') = inserted (trace st) \<and>
          (case getsize w (path_join root name) of
             Inl e \<Rightarrow> res = Inr () \<or> res = Inl e
           | Inr fsize \<Rightarrow> res = Inr ()))"

section \<open>Example trees\<close>

text \<open>
  A tree \<open>/t\<close> with a pattern file holding the pattern \<open>[.]tmp$\<close> and a blank line, a
  file \<open>scratch.tmp\<close>, a file \<open>locked\<close> that can be inspected and cannot be read, two
  copies of one film in \<open>movies\<close> and \<open>backup\<close>, and a text file in \<open>docs\<close>. The regular
  expression engine is given for the one pattern of the tree (it matches the strings
  that end in \<open>.tmp\<close>), and the digest is a stand-in that is different for different
  contents.
\<close>

definition demo_world :: world where
  "demo_world =
     \<lparr>connect_ok = True,
      create_ok = True,
      path_exists = (\<lambda>p. p = ''/t/.exclude_patterns''),
      readlines = (\<lambda>p. if p = ''/t/.exclude_patterns''
                        then Inr [''[.]tmp$'' @ [CHR 0x0A], [CHR 0x0A]]
                        else Inl OSError),
      re_compiles = (\<lambda>s. True),
      re_search = (\<lambda>pattern s. pattern = ''[.]tmp$'' \<and> endswith s ''.tmp''),
      os_walk = (\<lambda>d. if d = ''/t''
                  then [(''/t'', [''movies'', ''backup'', ''docs''],
                           [''.exclude_patterns'', ''scratch.tmp'', ''locked'']),
                        (''/t/movies'', [], [''a.mp4'']),
                        (''/t/backup'', [], [''a_copy.mp4'']),
                        (''/t/docs'', [], [''readme.txt''])]
                  else []),
      getsize = (\<lambda>p. if p = ''/t/movies/a.mp4'' \<or> p = ''/t/backup/a_copy.mp4'' then Inr 1
                      else if p = ''/t/docs/readme.txt'' then Inr 5
                      else if p = ''/t/locked'' then Inr 7
                      else Inl OSError),
      read_bytes = (\<lambda>p. if p = ''/t/movies/a.mp4'' \<or> p = ''/t/backup/a_copy.mp4'' then Inr ''X''
                         else if p = ''/t/docs/readme.txt'' then Inr ''hello''
                         else Inl OSError),
      md5_hexdigest = (\<lambda>content. ''md5:'' @ content),
      other_sessions = (\<lambda>p. [])\<rparr>"

text \<open>
  A tree \<open>/t\<close> with two files, \<open>a.bin\<close> and \<open>b.txt\<close>, and no pattern file; the program is
  the only writer of the store.
\<close>

definition plain_world :: world where
  "plain_world =
     \<lparr>connect_ok = True,
      create_ok = True,
      path_exists = (\<lambda>p. False),
      readlines = (\<lambda>p. Inl OSError),
      re_compiles = (\<lambda>s. True),
      re_search = (\<lambda>pattern s. False),
      os_walk = (\<lambda>d. if d = ''/t'' then [(''/t'', [], [''a.bin'', ''b.txt''])] else []),
      getsize = (\<lambda>p. if p = ''/t/a.bin'' then Inr 1
                      else if p = ''/t/b.txt'' then Inr 5
                      else Inl OSError),
      read_bytes = (\<lambda>p. if p = ''/t/a.bin'' then Inr ''X''
                         else if p = ''/t/b.txt'' then Inr ''hello''
                         else Inl OSError),
      md5_hexdigest = (\<lambda>content. ''md5:'' @ content),
      other_sessions = (\<lambda>p. [])\<rparr>"

text \<open>
  The same tree while a second indexer works on a copy of \<open>a.bin\<close> elsewhere: its row is
  committed after this program has looked the digest up and before this program inserts.
\<close>

definition race_world :: world where
  "race_world =
     plain_world
       \<lparr>other_sessions :=
          (\<lambda>p. if p = ''/t/a.bin''
                then [\<lparr>file_name = ''copy.bin'', path = ''/elsewhere/copy.bin'',
                        md5_hash = ''md5:X'', file_size = 1, category = ''other''\<rparr>]
                else [])\<rparr>"

text \<open>
  The same tree where \<open>a.bin\<close> is a symbolic link to a file that is gone: \<open>os.walk\<close> lists
  it among the files and \<open>os.path.getsize\<close> raises for it.
\<close>

definition dangling_world :: world where
  "dangling_world =
     plain_world\<lparr>getsize := (\<lambda>p. if p = ''/t/b.txt'' then Inr 5 else Inl OSError)\<rparr>"

text \<open>The same tree where the \<open>CREATE TABLE\<close> statement fails.\<close>

definition no_schema_world :: world where
  "no_schema_world = plain_world\<lparr>create_ok := False\<rparr>"

text \<open>The state of a run that has made no call yet, against a store with an empty table.\<close>

definition fresh :: state where
  "fresh = \<lparr>table = Some [], file_index = [], trace = []\<rparr>"

section \<open>Facts about substrings\<close>

lemma startswith_iff: "startswith s k \<longleftrightarrow> (\<exists>q. s = k @ q)"
  by (induction s k rule: startswith.induct) auto

lemma contains_iff: "contains s k \<longleftrightarrow> (\<exists>p q. s = p @ k @ q)"
proof (induction s)
  case Nil
  then show ?case by auto
next
  case (Cons c cs)
  show ?case
  proof
    assume "contains (c # cs) k"
    then consider "startswith (c # cs) k" | "contains cs k" by auto
    then show "\<exists>p q. c # cs = p @ k @ q"
    proof cases
      case 1
      then obtain q where "c # cs = k @ q" using startswith_iff by blast
      then have "c # cs = [] @ k @ q" by simp
      then show ?thesis by blast
    next
      case 2
      then obtain p q where "cs = p @ k @ q" using Cons.IH by blast
      then have "c # cs = (c # p) @ k @ q" by simp
      then show ?thesis by blast
    qed
  next
    assume "\<exists>p q. c # cs = p @ k @ q"
    then obtain p q where pq: "c # cs = p @ k @ q" by blast
    show "contains (c # cs) k"
    proof (cases p)
      case Nil
      with pq have "startswith (c # cs) k" using startswith_iff by auto
      then show ?thesis by simp
    next
      case (Cons a p')
      with pq have "cs = p' @ k @ q" by simp
      then have "contains cs k" using Cons.IH by blast
      then show ?thesis by simp
    qed
  qed
qed

lemma contains_append: "contains s (a @ b) \<Longrightarrow> contains s b"
proof -
  assume "contains s (a @ b)"
  then obtain p q where "s = p @ (a @ b) @ q" using contains_iff by blast
  then have "s = (p @ a) @ b @ q" by simp
  then show "contains s b" using contains_iff by blast
qed

section \<open>The categorizer's properties\<close>

lemma movies_has_movie: "contains s ''movies'' \<Longrightarrow> contains s ''movie''"
proof -
  assume "contains s ''movies''"
  then obtain p q where "s = p @ ''movies'' @ q" using contains_iff by blast
  then have "s = p @ ''movie'' @ (''s'' @ q)" by simp
  then show ?thesis using contains_iff by blast
qed

lemma audiobook_has_book: "contains s ''audiobook'' \<Longrightarrow> contains s ''book''"
  using contains_append [of s "''audio''" "''book''"] by simp

lemma audiobooks_has_book: "contains s ''audiobooks'' \<Longrightarrow> contains s ''book''"
proof -
  assume "contains s ''audiobooks''"
  then obtain p q where "s = p @ ''audiobooks'' @ q" using contains_iff by blast
  then have "s = (p @ ''audio'') @ ''book'' @ (''s'' @ q)" by simp
  then show ?thesis using contains_iff by blast
qed

text \<open>
  C6. The categorizer is a function of the path and the extension alone: it takes no state,
  so equal arguments give equal categories. A path whose lowercased form contains \<open>movies\<close>
  is categorised \<open>movie\<close> whatever the extension is: the path phase runs first and \<open>movie\<close>
  is its first entry.
\<close>

theorem detect_category_movies:
  "(file_path' = file_path \<and> file_extension' = file_extension \<longrightarrow>
      detect_category file_path' file_extension' = detect_category file_path file_extension) \<and>
   (contains (lower file_path) ''movies'' \<longrightarrow> detect_category file_path file_extension = ''movie'')"
  by (simp add: detect_category_def categories_def any_keyword_in_def)

theorem detect_category_movies_witness:
  "contains (lower ''/srv/Movies/clip.txt'') ''movies'' \<and>
   detect_category ''/srv/Movies/clip.txt'' ''.txt'' = ''movie'' \<and>
   detect_category ''/srv/Movies/clip.txt'' ''.mp3'' = ''movie''"
  using detect_category_movies [of "''/srv/Movies/clip.txt''" "''/srv/Movies/clip.txt''" "''.txt''" "''.txt''"]
    detect_category_movies [of "''/srv/Movies/clip.txt''" "''/srv/Movies/clip.txt''" "''.mp3''" "''.mp3''"]
  by (simp add: lower_def lower_char_def)


lemma books_has_book: "contains s ''books'' \<Longrightarrow> contains s ''book''"
proof -
  assume "contains s ''books''"
  then obtain p q where "s = p @ ''books'' @ q" using contains_iff by blast
  then have "s = p @ ''book'' @ (''s'' @ q)" by simp
  then show ?thesis using contains_iff by blast
qed

text \<open>
  C7. When no category keyword occurs in the lowercased path, the extension \<open>.mp3\<close> gives
  \<open>audio\<close> and the extension \<open>.unknownext\<close>, which is in no extension list, gives \<open>other\<close>.
\<close>

theorem detect_category_extension_phase:
  "\<not> any_keyword_in category_keywords (lower file_path) \<Longrightarrow>
     detect_category file_path ''.mp3'' = ''audio'' \<and>
     detect_category file_path ''.unknownext'' = ''other''"
  by (simp add: detect_category_def categories_def extension_categories_def
      category_keywords_def any_keyword_in_def lower_def lower_char_def)

theorem detect_category_extension_phase_witness:
  "\<not> any_keyword_in category_keywords (lower ''/data/Song'') \<and>
   detect_category ''/data/Song'' ''.mp3'' = ''audio'' \<and>
   detect_category ''/data/Song'' ''.unknownext'' = ''other''"
proof -
  have h: "\<not> any_keyword_in category_keywords (lower ''/data/Song'')"
    by (simp add: category_keywords_def categories_def any_keyword_in_def lower_def lower_char_def)
  show ?thesis using h detect_category_extension_phase [OF h] by simp
qed

text \<open>
  C10. The categorizer never answers \<open>audiobook\<close>: \<open>book\<close> comes before \<open>audiobook\<close> in
  the dictionary, and a path that contains \<open>audiobook\<close> or \<open>audiobooks\<close> contains \<open>book\<close>.
\<close>

theorem detect_category_never_audiobook:
  "detect_category file_path file_extension \<noteq> ''audiobook''"
proof (cases "contains (lower file_path) ''book''")
  case True
  then show ?thesis
    by (simp add: detect_category_def categories_def any_keyword_in_def)
next
  case False
  then have "\<not> contains (lower file_path) ''audiobook''"
    and "\<not> contains (lower file_path) ''audiobooks''"
    and "\<not> contains (lower file_path) ''books''"
    using audiobook_has_book audiobooks_has_book books_has_book by blast+
  with False show ?thesis
    by (simp add: detect_category_def categories_def extension_categories_def any_keyword_in_def)
qed

section \<open>The loops\<close>

lemma index_files_append:
  "index_files w pats root (xs @ ys) st =
     (case index_files w pats root xs st of
        (Inl e, st') \<Rightarrow> (Inl e, st')
      | (Inr u, st') \<Rightarrow> index_files w pats root ys st')"
  by (induction xs arbitrary: st) (simp_all split: prod.split sum.split)

lemma index_walk_append:
  "index_walk w pats (xs @ ys) st =
     (case index_walk w pats xs st of
        (Inl e, st') \<Rightarrow> (Inl e, st')
      | (Inr u, st') \<Rightarrow> index_walk w pats ys st')"
proof (induction xs arbitrary: st)
  case Nil
  then show ?case by simp
next
  case (Cons x xs)
  obtain root dirs files where x: "x = (root, dirs, files)" by (cases x) auto
  show ?case unfolding x using Cons.IH by (simp split: prod.split sum.split)
qed

lemma should_exclude_iff:
  "should_exclude w file_path pats \<longleftrightarrow> (\<exists>pattern. pattern \<in> set pats \<and> re_search w pattern file_path)"
  by (induction pats) auto

lemma index_file_filtered:
  "name = ''.exclude_patterns'' \<or> should_exclude w (path_join root name) pats \<Longrightarrow>
     index_file w pats root name st = (Inr (), st)"
  by (auto simp: index_file_def)

section \<open>Files that are filtered out or cannot be read\<close>

text \<open>
  C4. A file named \<open>.exclude_patterns\<close>, and a file whose full path is matched by one of
  the loaded patterns, ends its iteration at once and leaves the state as it was: no size
  is asked for, nothing is read or hashed, no hash is looked up and no row is inserted.
  The loop over a directory and the loop over the whole walk run exactly as they run on
  the tree without that file.
\<close>

theorem excluded_file_untouched:
  assumes "name = ''.exclude_patterns'' \<or>
           (\<exists>pattern. pattern \<in> set exclude_patterns \<and> re_search w pattern (path_join root name))"
  shows "index_file w exclude_patterns root name st = (Inr (), st) \<and>
         index_files w exclude_patterns root (before @ name # after) st =
           index_files w exclude_patterns root (before @ after) st \<and>
         index_walk w exclude_patterns (earlier @ (root, dirs, before @ name # after) # later) st =
           index_walk w exclude_patterns (earlier @ (root, dirs, before @ after) # later) st"
proof -
  have filtered: "name = ''.exclude_patterns'' \<or> should_exclude w (path_join root name) exclude_patterns"
    using assms unfolding should_exclude_iff .
  have skip: "index_file w exclude_patterns root name s = (Inr (), s)" for s
    by (rule index_file_filtered [OF filtered])
  have step: "index_files w exclude_patterns root (name # after) s =
              index_files w exclude_patterns root after s" for s
    by (simp add: skip)
  have files: "index_files w exclude_patterns root (before @ name # after) s =
               index_files w exclude_patterns root (before @ after) s" for s
    unfolding index_files_append step ..
  have dir: "index_walk w exclude_patterns ((root, dirs, before @ name # after) # later) s =
             index_walk w exclude_patterns ((root, dirs, before @ after) # later) s" for s
    by (simp add: files)
  have walk: "index_walk w exclude_patterns (earlier @ (root, dirs, before @ name # after) # later) s =
              index_walk w exclude_patterns (earlier @ (root, dirs, before @ after) # later) s" for s
    unfolding index_walk_append dir ..
  show ?thesis using skip [of st] files [of st] walk [of st] by blast
qed

theorem excluded_file_untouched_witness:
  "(''scratch.tmp'' = ''.exclude_patterns'' \<or>
    (\<exists>pattern. pattern \<in> set [''[.]tmp$''] \<and>
       re_search demo_world pattern (path_join ''/t'' ''scratch.tmp''))) \<and>
   index_file demo_world [''[.]tmp$''] ''/t'' ''scratch.tmp'' fresh = (Inr (), fresh) \<and>
   index_files demo_world [''[.]tmp$''] ''/t'' ([''.exclude_patterns''] @ ''scratch.tmp'' # [''locked'']) fresh =
     index_files demo_world [''[.]tmp$''] ''/t'' ([''.exclude_patterns''] @ [''locked'']) fresh"
proof -
  have h: "''scratch.tmp'' = ''.exclude_patterns'' \<or>
    (\<exists>pattern. pattern \<in> set [''[.]tmp$''] \<and>
       re_search demo_world pattern (path_join ''/t'' ''scratch.tmp''))"
    by (simp add: demo_world_def path_join_def endswith_def)
  show ?thesis
    using h excluded_file_untouched [OF h, where st = fresh and before = "[''.exclude_patterns'']"
        and after = "[''locked'']"]
    by blast
qed

text \<open>
  C5. A file that reaches the digest computation (it is not filtered out and its size was
  read) and whose bytes cannot be read is skipped: the iteration ends normally after the
  size query and the read attempt, with no lookup and no insert, and the loops over the
  directory and over the rest of the walk go on with the remaining files from that state.
\<close>

theorem hash_failure_skips_file:
  assumes "name \<noteq> ''.exclude_patterns''"
    and "\<not> should_exclude w (path_join root name) exclude_patterns"
    and "getsize w (path_join root name) = Inr fsize"
    and "read_bytes w (path_join root name) = Inl e"
  shows "index_file w exclude_patterns root name st =
           (Inr (), emit (ReadBytes (path_join root name)) (emit (Getsize (path_join root name)) st)) \<and>
         index_files w exclude_patterns root (name # files) st =
           index_files w exclude_patterns root files
             (emit (ReadBytes (path_join root name)) (emit (Getsize (path_join root name)) st)) \<and>
         index_walk w exclude_patterns ((root, dirs, name # files) # later) st =
           index_walk w exclude_patterns ((root, dirs, files) # later)
             (emit (ReadBytes (path_join root name)) (emit (Getsize (path_join root name)) st))"
proof -
  have "index_file w exclude_patterns root name st =
          (Inr (), emit (ReadBytes (path_join root name)) (emit (Getsize (path_join root name)) st))"
    using assms by (simp add: index_file_def os_getsize_def calculate_md5_def Let_def)
  then show ?thesis by simp
qed

theorem hash_failure_skips_file_witness:
  "''locked'' \<noteq> ''.exclude_patterns'' \<and>
   \<not> should_exclude demo_world (path_join ''/t'' ''locked'') [''[.]tmp$''] \<and>
   getsize demo_world (path_join ''/t'' ''locked'') = Inr 7 \<and>
   read_bytes demo_world (path_join ''/t'' ''locked'') = Inl OSError \<and>
   index_file demo_world [''[.]tmp$''] ''/t'' ''locked'' fresh =
     (Inr (), fresh\<lparr>trace := [Getsize ''/t/locked'', ReadBytes ''/t/locked'']\<rparr>) \<and>
   index_files demo_world [''[.]tmp$''] ''/t'' [''locked'', ''other''] fresh =
     index_files demo_world [''[.]tmp$''] ''/t'' [''other'']
       (fresh\<lparr>trace := [Getsize ''/t/locked'', ReadBytes ''/t/locked'']\<rparr>)"
proof -
  have p: "path_join ''/t'' ''locked'' = ''/t/locked''"
    by (simp add: path_join_def endswith_def)
  have h1: "''locked'' \<noteq> ''.exclude_patterns''" by simp
  have h2: "\<not> should_exclude demo_world (path_join ''/t'' ''locked'') [''[.]tmp$'']"
    by (simp add: p demo_world_def endswith_def)
  have h3: "getsize demo_world (path_join ''/t'' ''locked'') = Inr 7"
    by (simp add: p demo_world_def)
  have h4: "read_bytes demo_world (path_join ''/t'' ''locked'') = Inl OSError"
    by (simp add: p demo_world_def)
  have e: "emit (ReadBytes ''/t/locked'') (emit (Getsize ''/t/locked'') fresh) =
           fresh\<lparr>trace := [Getsize ''/t/locked'', ReadBytes ''/t/locked'']\<rparr>"
    by (simp add: emit_def fresh_def)
  show ?thesis
    using h1 h2 h3 h4
      hash_failure_skips_file [OF h1 h2 h3 h4, where st = fresh and files = "[''other'']"]
    unfolding p e by blast
qed

section \<open>Loading the exclusion patterns\<close>

lemma compile_all_ok: "list_all (re_compiles w) ps \<Longrightarrow> compile_all w ps = Inr ps"
  by (induction ps) auto

lemma length_pattern_lines:
  "length (pattern_lines file_lines) = length (filter (\<lambda>line. strip line \<noteq> []) file_lines)"
  by (induction file_lines) (simp_all add: pattern_lines_def)

text \<open>
  C8. When the root directory holds no \<open>.exclude_patterns\<close>, the loader returns the empty
  list after the existence test alone (the loader has no exceptional result: every
  exception inside it is caught). When the file exists, can be read and every stripped
  non-blank line compiles, the result has one pattern per non-blank line, in the order
  of the lines.
\<close>

theorem load_exclusion_patterns_spec:
  "(\<not> path_exists w (path_join directory ''.exclude_patterns'') \<longrightarrow>
      load_exclusion_patterns w directory st =
        ([], emit (PathExists (path_join directory ''.exclude_patterns'')) st)) \<and>
   (path_exists w (path_join directory ''.exclude_patterns'') \<and>
    readlines w (path_join directory ''.exclude_patterns'') = Inr file_lines \<and>
    list_all (re_compiles w) (pattern_lines file_lines) \<longrightarrow>
      fst (load_exclusion_patterns w directory st) = pattern_lines file_lines \<and>
      length (fst (load_exclusion_patterns w directory st)) =
        length (filter (\<lambda>line. strip line \<noteq> []) file_lines))"
  by (simp add: load_exclusion_patterns_def Let_def compile_all_ok length_pattern_lines)

theorem load_exclusion_patterns_spec_witness:
  "\<not> path_exists demo_world (path_join ''/elsewhere'' ''.exclude_patterns'') \<and>
   load_exclusion_patterns demo_world ''/elsewhere'' fresh =
     ([], fresh\<lparr>trace := [PathExists ''/elsewhere/.exclude_patterns'']\<rparr>) \<and>
   path_exists demo_world (path_join ''/t'' ''.exclude_patterns'') \<and>
   readlines demo_world (path_join ''/t'' ''.exclude_patterns'') =
     Inr [''[.]tmp$'' @ [CHR 0x0A], [CHR 0x0A]] \<and>
   list_all (re_compiles demo_world) (pattern_lines [''[.]tmp$'' @ [CHR 0x0A], [CHR 0x0A]]) \<and>
   fst (load_exclusion_patterns demo_world ''/t'' fresh) = [''[.]tmp$'']"
proof -
  have p: "path_join ''/elsewhere'' ''.exclude_patterns'' = ''/elsewhere/.exclude_patterns''"
    "path_join ''/t'' ''.exclude_patterns'' = ''/t/.exclude_patterns''"
    by (simp_all add: path_join_def endswith_def)
  have l: "pattern_lines [''[.]tmp$'' @ [CHR 0x0A], [CHR 0x0A]] = [''[.]tmp$'']"
    by (simp add: pattern_lines_def strip_def isspace_def)
  have h1: "\<not> path_exists demo_world (path_join ''/elsewhere'' ''.exclude_patterns'')"
    by (simp add: p demo_world_def)
  have h2: "path_exists demo_world (path_join ''/t'' ''.exclude_patterns'')"
    by (simp add: p demo_world_def)
  have h3: "readlines demo_world (path_join ''/t'' ''.exclude_patterns'') =
     Inr [''[.]tmp$'' @ [CHR 0x0A], [CHR 0x0A]]"
    by (simp add: p demo_world_def)
  have h4: "list_all (re_compiles demo_world) (pattern_lines [''[.]tmp$'' @ [CHR 0x0A], [CHR 0x0A]])"
    unfolding l by (simp add: demo_world_def)
  have e: "emit (PathExists ''/elsewhere/.exclude_patterns'') fresh =
           fresh\<lparr>trace := [PathExists ''/elsewhere/.exclude_patterns'']\<rparr>"
    by (simp add: emit_def fresh_def)
  show ?thesis
    using h1 h2 h3 h4
      load_exclusion_patterns_spec [where w = demo_world and directory = "''/elsewhere''" and st = fresh]
      load_exclusion_patterns_spec [where w = demo_world and directory = "''/t''" and st = fresh
        and file_lines = "[''[.]tmp$'' @ [CHR 0x0A], [CHR 0x0A]]"]
    unfolding p l e by blast
qed

section \<open>Deduplication by content hash\<close>

lemma index_walk_entries:
  "index_walk w pats walk st = index_entries w pats (walk_entries walk) st"
proof -
  have files: "index_entries w pats (map (Pair root) files @ rest) s =
               (case index_files w pats root files s of
                  (Inl e, s') \<Rightarrow> (Inl e, s')
                | (Inr u, s') \<Rightarrow> index_entries w pats rest s')" for root files rest s
    by (induction files arbitrary: s) (simp_all split: prod.split sum.split)
  show ?thesis
  proof (induction walk arbitrary: st)
    case Nil
    then show ?case by (simp add: walk_entries_def)
  next
    case (Cons x walk)
    obtain root dirs files where x: "x = (root, dirs, files)" by (cases x) auto
    have "walk_entries (x # walk) = map (Pair root) files @ walk_entries walk"
      by (simp add: x walk_entries_def)
    then show ?case using Cons.IH by (simp add: x files split: prod.split sum.split)
  qed
qed

lemma index_entries_append:
  "index_entries w pats (xs @ ys) st =
     (case index_entries w pats xs st of
        (Inl e, st') \<Rightarrow> (Inl e, st')
      | (Inr u, st') \<Rightarrow> index_entries w pats ys st')"
proof (induction xs arbitrary: st)
  case Nil
  then show ?case by simp
next
  case (Cons x xs)
  obtain root name where x: "x = (root, name)" by (cases x) auto
  show ?case unfolding x using Cons.IH by (simp split: prod.split sum.split)
qed

lemma stored_hashes_emit [simp]: "stored_hashes (emit e st) = stored_hashes st"
  by (simp add: stored_hashes_def table_rows_def emit_def)

lemma table_emit [simp]: "table (emit e st) = table st"
  by (simp add: emit_def)

lemma file_index_emit [simp]: "file_index (emit e st) = file_index st"
  by (simp add: emit_def)

lemma trace_emit [simp]: "trace (emit e st) = trace st @ [e]"
  by (simp add: emit_def)

lemma add_row_hashes:
  "add_row r rows = Some rows' \<Longrightarrow>
     set (map md5_hash rows') = insert (md5_hash r) (set (map md5_hash rows))"
  by (auto simp: add_row_def split: if_splits)

lemma commit_others_mono:
  "set (map md5_hash rows) \<subseteq> set (map md5_hash (commit_others rs rows))"
proof (induction rs arbitrary: rows)
  case Nil
  then show ?case by simp
next
  case (Cons r rs)
  show ?case
  proof (cases "add_row r rows")
    case None
    then show ?thesis using Cons.IH by simp
  next
    case (Some rows')
    then have "set (map md5_hash rows) \<subseteq> set (map md5_hash rows')"
      using add_row_hashes by blast
    also have "\<dots> \<subseteq> set (map md5_hash (commit_others rs rows'))" by (rule Cons.IH)
    finally show ?thesis using Some by simp
  qed
qed

lemma db_insert_mono:
  assumes "db_insert w entry st = (res, st')"
  shows "stored_hashes st \<subseteq> stored_hashes st'"
proof (cases "table st")
  case None
  then show ?thesis using assms by (auto simp: db_insert_def)
next
  case (Some rows)
  let ?cur = "commit_others (other_sessions w (path entry)) rows"
  have base: "stored_hashes st \<subseteq> set (map md5_hash ?cur)"
    using commit_others_mono by (simp add: stored_hashes_def table_rows_def Some)
  show ?thesis
  proof (cases "add_row entry ?cur")
    case None
    then have "st' = emit (Insert entry) (st\<lparr>table := Some ?cur\<rparr>)"
      using assms Some by (simp add: db_insert_def)
    then show ?thesis using base by (simp add: stored_hashes_def table_rows_def emit_def)
  next
    case (Some rows')
    then have st': "st' = emit Commit (emit (Insert entry) (st\<lparr>table := Some rows'\<rparr>))"
      using assms \<open>table st = Some rows\<close> by (simp add: db_insert_def)
    have "set (map md5_hash ?cur) \<subseteq> set (map md5_hash rows')"
      using add_row_hashes [OF Some] by blast
    then show ?thesis using base by (simp add: st' stored_hashes_def table_rows_def emit_def)
  qed
qed

lemma db_insert_ok:
  assumes "db_insert w entry st = (Inr u, st')"
  shows "md5_hash entry \<in> stored_hashes st'"
proof (cases "table st")
  case None
  then show ?thesis using assms by (simp add: db_insert_def)
next
  case (Some rows)
  let ?cur = "commit_others (other_sessions w (path entry)) rows"
  show ?thesis
  proof (cases "add_row entry ?cur")
    case None
    then show ?thesis using assms Some by (simp add: db_insert_def)
  next
    case (Some rows')
    then have st': "st' = emit Commit (emit (Insert entry) (st\<lparr>table := Some rows'\<rparr>))"
      using assms \<open>table st = Some rows\<close> by (simp add: db_insert_def)
    show ?thesis using add_row_hashes [OF Some]
      by (simp add: st' stored_hashes_def table_rows_def emit_def)
  qed
qed

lemma db_select_state: "snd (db_select h st) = emit (Select h) st"
  by (simp add: db_select_def split: option.split)

lemma db_select_found:
  "h \<in> stored_hashes st \<Longrightarrow> \<exists>r. db_select h st = (Inr (Some r), emit (Select h) st)"
proof -
  assume h: "h \<in> stored_hashes st"
  then obtain rows where rows: "table st = Some rows"
    by (cases "table st") (auto simp: stored_hashes_def table_rows_def)
  with h have "\<exists>r \<in> set rows. md5_hash r = h"
    by (auto simp: stored_hashes_def table_rows_def)
  then have "find (\<lambda>r. md5_hash r = h) rows \<noteq> None"
    by (auto simp: find_None_iff)
  then show ?thesis by (auto simp: db_select_def rows)
qed

lemma db_select_found_hash:
  "db_select h st = (Inr (Some r), st') \<Longrightarrow> h \<in> stored_hashes st'"
proof -
  assume a: "db_select h st = (Inr (Some r), st')"
  then obtain rows where rows: "table st = Some rows"
    by (cases "table st") (auto simp: db_select_def)
  with a have f: "find (\<lambda>r. md5_hash r = h) rows = Some r" and st': "st' = emit (Select h) st"
    by (auto simp: db_select_def)
  from f have "r \<in> set rows \<and> md5_hash r = h"
    by (auto simp: find_Some_iff)
  then show ?thesis by (auto simp: st' stored_hashes_def table_rows_def rows)
qed
lemma index_file_hashed:
  assumes "name \<noteq> ''.exclude_patterns''"
    and "\<not> should_exclude w (path_join root name) pats"
    and "getsize w (path_join root name) = Inr fsize"
    and "read_bytes w (path_join root name) = Inr content"
  shows "index_file w pats root name st =
     (case db_select (md5_hexdigest w content)
             (emit (ReadBytes (path_join root name)) (emit (Getsize (path_join root name)) st)) of
        (Inl e, st3) \<Rightarrow> (Inl e, st3)
      | (Inr (Some existing_file), st3) \<Rightarrow> (Inr (), st3)
      | (Inr None, st3) \<Rightarrow>
          (case db_insert w
                  \<lparr>file_name = name, path = path_join root name,
                     md5_hash = md5_hexdigest w content, file_size = fsize,
                     category = detect_category (path_join root name) (snd (splitext name))\<rparr> st3 of
             (Inl e, st4) \<Rightarrow> (Inl e, st4)
           | (Inr u, st4) \<Rightarrow>
               (Inr (), st4\<lparr>file_index := file_index st4 @
                  [\<lparr>file_name = name, path = path_join root name,
                     md5_hash = md5_hexdigest w content, file_size = fsize,
                     category = detect_category (path_join root name) (snd (splitext name))\<rparr>]\<rparr>)))"
  using assms
  by (simp add: index_file_def os_getsize_def calculate_md5_def Let_def
      split: prod.split sum.split option.split)

lemma index_file_getsize_raises:
  assumes "name \<noteq> ''.exclude_patterns''"
    and "\<not> should_exclude w (path_join root name) pats"
    and "getsize w (path_join root name) = Inl e"
  shows "index_file w pats root name st = (Inl e, emit (Getsize (path_join root name)) st)"
  using assms by (simp add: index_file_def os_getsize_def Let_def)

lemma index_file_unreadable:
  assumes "name \<noteq> ''.exclude_patterns''"
    and "\<not> should_exclude w (path_join root name) pats"
    and "getsize w (path_join root name) = Inr fsize"
    and "read_bytes w (path_join root name) = Inl e"
  shows "index_file w pats root name st =
           (Inr (), emit (ReadBytes (path_join root name)) (emit (Getsize (path_join root name)) st))"
  using assms by (simp add: index_file_def os_getsize_def calculate_md5_def Let_def)

lemma stored_hashes_file_index [simp]:
  "stored_hashes (st\<lparr>file_index := xs\<rparr>) = stored_hashes st"
  by (simp add: stored_hashes_def table_rows_def)

lemma index_file_mono:
  assumes run: "index_file w pats root name st = (res, st')"
  shows "stored_hashes st \<subseteq> stored_hashes st'"
proof (cases "name = ''.exclude_patterns'' \<or> should_exclude w (path_join root name) pats")
  case True
  then show ?thesis using run index_file_filtered [OF True, of st] by simp
next
  case False
  then have nf: "name \<noteq> ''.exclude_patterns''" "\<not> should_exclude w (path_join root name) pats"
    by auto
  show ?thesis
  proof (cases "getsize w (path_join root name)")
    case (Inl e)
    then show ?thesis using run index_file_getsize_raises [OF nf Inl, of st] by auto
  next
    case sz: (Inr fsize)
    show ?thesis
    proof (cases "read_bytes w (path_join root name)")
      case (Inl e)
      then show ?thesis using run index_file_unreadable [OF nf sz Inl, of st] by auto
    next
      case rd: (Inr content)
      let ?s2 = "emit (ReadBytes (path_join root name)) (emit (Getsize (path_join root name)) st)"
      let ?h = "md5_hexdigest w content"
      obtain r3 s3 where sel: "db_select ?h ?s2 = (r3, s3)" by (cases "db_select ?h ?s2") auto
      have s3: "s3 = emit (Select ?h) ?s2" using db_select_state [of ?h ?s2] sel by simp
      show ?thesis
      proof (cases r3)
        case (Inl e)
        then show ?thesis using run index_file_hashed [OF nf sz rd, of st] sel s3 by auto
      next
        case found: (Inr found_row)
        show ?thesis
        proof (cases found_row)
          case (Some r)
          then show ?thesis using run index_file_hashed [OF nf sz rd, of st] sel s3 found by auto
        next
          case None
          let ?entry = "\<lparr>file_name = name, path = path_join root name,
                     md5_hash = ?h, file_size = fsize,
                     category = detect_category (path_join root name) (snd (splitext name))\<rparr>"
          obtain r4 s4 where ins: "db_insert w ?entry s3 = (r4, s4)"
            by (cases "db_insert w ?entry s3") auto
          have m: "stored_hashes st \<subseteq> stored_hashes s4"
            using db_insert_mono [OF ins] s3 by simp
          show ?thesis
          proof (cases r4)
            case (Inl e)
            then show ?thesis
              using run index_file_hashed [OF nf sz rd, of st] sel found None ins m by auto
          next
            case (Inr u)
            then show ?thesis
              using run index_file_hashed [OF nf sz rd, of st] sel found None ins m by auto
          qed
        qed
      qed
    qed
  qed
qed

lemma index_file_leaves_hash:
  assumes run: "index_file w pats root name st = (Inr u, st')"
    and nf: "name \<noteq> ''.exclude_patterns''" "\<not> should_exclude w (path_join root name) pats"
    and rd: "read_bytes w (path_join root name) = Inr content"
  shows "md5_hexdigest w content \<in> stored_hashes st'"
proof (cases "getsize w (path_join root name)")
  case (Inl e)
  then show ?thesis using run index_file_getsize_raises [OF nf Inl, of st] by simp
next
  case sz: (Inr fsize)
  let ?s2 = "emit (ReadBytes (path_join root name)) (emit (Getsize (path_join root name)) st)"
  let ?h = "md5_hexdigest w content"
  obtain r3 s3 where sel: "db_select ?h ?s2 = (r3, s3)" by (cases "db_select ?h ?s2") auto
  show ?thesis
  proof (cases r3)
    case (Inl e)
    then show ?thesis using run index_file_hashed [OF nf sz rd, of st] sel by auto
  next
    case found: (Inr found_row)
    show ?thesis
    proof (cases found_row)
      case (Some r)
      then have "st' = s3" using run index_file_hashed [OF nf sz rd, of st] sel found by auto
      then show ?thesis using db_select_found_hash sel found Some by blast
    next
      case None
      let ?entry = "\<lparr>file_name = name, path = path_join root name,
                 md5_hash = ?h, file_size = fsize,
                 category = detect_category (path_join root name) (snd (splitext name))\<rparr>"
      obtain r4 s4 where ins: "db_insert w ?entry s3 = (r4, s4)"
        by (cases "db_insert w ?entry s3") auto
      show ?thesis
      proof (cases r4)
        case (Inl e)
        then show ?thesis
          using run index_file_hashed [OF nf sz rd, of st] sel found None ins by auto
      next
        case (Inr u')
        then have st': "st' = s4\<lparr>file_index := file_index s4 @ [?entry]\<rparr>"
          using run index_file_hashed [OF nf sz rd, of st] sel found None ins by auto
        have "?h \<in> stored_hashes s4" using db_insert_ok ins Inr by fastforce
        then show ?thesis by (simp add: st')
      qed
    qed
  qed
qed

lemma index_file_getsize_ok:
  assumes run: "index_file w pats root name st = (Inr u, st')"
    and nf: "name \<noteq> ''.exclude_patterns''" "\<not> should_exclude w (path_join root name) pats"
  shows "\<exists>fsize. getsize w (path_join root name) = Inr fsize"
proof (cases "getsize w (path_join root name)")
  case (Inl e)
  then show ?thesis using run index_file_getsize_raises [OF nf Inl, of st] by simp
next
  case (Inr fsize)
  then show ?thesis by blast
qed

lemma index_file_known_hash:
  assumes nf: "name \<noteq> ''.exclude_patterns''" "\<not> should_exclude w (path_join root name) pats"
    and sz: "getsize w (path_join root name) = Inr fsize"
    and rd: "read_bytes w (path_join root name) = Inr content"
    and known: "md5_hexdigest w content \<in> stored_hashes st"
  shows "index_file w pats root name st =
           (Inr (), emit (Select (md5_hexdigest w content))
                      (emit (ReadBytes (path_join root name))
                         (emit (Getsize (path_join root name)) st)))"
proof -
  let ?s2 = "emit (ReadBytes (path_join root name)) (emit (Getsize (path_join root name)) st)"
  have "md5_hexdigest w content \<in> stored_hashes ?s2" using known by simp
  then obtain r where "db_select (md5_hexdigest w content) ?s2 =
      (Inr (Some r), emit (Select (md5_hexdigest w content)) ?s2)"
    using db_select_found by blast
  then show ?thesis using index_file_hashed [OF nf sz rd, of st] by simp
qed

lemma index_entries_mono:
  "index_entries w pats es st = (res, st') \<Longrightarrow> stored_hashes st \<subseteq> stored_hashes st'"
proof (induction es arbitrary: st)
  case Nil
  then show ?case by simp
next
  case (Cons x es)
  obtain root name where x: "x = (root, name)" by (cases x) auto
  obtain r1 s1 where step: "index_file w pats root name st = (r1, s1)"
    by (cases "index_file w pats root name st") auto
  have m1: "stored_hashes st \<subseteq> stored_hashes s1" using index_file_mono [OF step] .
  show ?case
  proof (cases r1)
    case (Inl e)
    then show ?thesis using Cons.prems step m1 by (simp add: x)
  next
    case (Inr u)
    then have "index_entries w pats es s1 = (res, st')" using Cons.prems step by (simp add: x)
    then have "stored_hashes s1 \<subseteq> stored_hashes st'" by (rule Cons.IH)
    with m1 show ?thesis by blast
  qed
qed
lemma db_insert_table_none:
  "db_insert w entry st = (res, st') \<Longrightarrow> (table st' = None) = (table st = None)"
  by (auto simp: db_insert_def emit_def Let_def split: option.splits)

lemma index_file_table_none:
  assumes run: "index_file w pats root name st = (res, st')"
  shows "(table st' = None) = (table st = None)"
proof (cases "name = ''.exclude_patterns'' \<or> should_exclude w (path_join root name) pats")
  case True
  then show ?thesis using run index_file_filtered [OF True, of st] by simp
next
  case False
  then have nf: "name \<noteq> ''.exclude_patterns''" "\<not> should_exclude w (path_join root name) pats"
    by auto
  show ?thesis
  proof (cases "getsize w (path_join root name)")
    case (Inl e)
    then show ?thesis using run index_file_getsize_raises [OF nf Inl, of st] by auto
  next
    case sz: (Inr fsize)
    show ?thesis
    proof (cases "read_bytes w (path_join root name)")
      case (Inl e)
      then show ?thesis using run index_file_unreadable [OF nf sz Inl, of st] by auto
    next
      case rd: (Inr content)
      let ?s2 = "emit (ReadBytes (path_join root name)) (emit (Getsize (path_join root name)) st)"
      let ?h = "md5_hexdigest w content"
      obtain r3 s3 where sel: "db_select ?h ?s2 = (r3, s3)" by (cases "db_select ?h ?s2") auto
      have s3: "s3 = emit (Select ?h) ?s2" using db_select_state [of ?h ?s2] sel by simp
      show ?thesis
      proof (cases r3)
        case (Inl e)
        then show ?thesis using run index_file_hashed [OF nf sz rd, of st] sel s3 by auto
      next
        case found: (Inr found_row)
        show ?thesis
        proof (cases found_row)
          case (Some r)
          then show ?thesis using run index_file_hashed [OF nf sz rd, of st] sel s3 found by auto
        next
          case None
          let ?entry = "\<lparr>file_name = name, path = path_join root name,
                     md5_hash = ?h, file_size = fsize,
                     category = detect_category (path_join root name) (snd (splitext name))\<rparr>"
          obtain r4 s4 where ins: "db_insert w ?entry s3 = (r4, s4)"
            by (cases "db_insert w ?entry s3") auto
          have m: "(table s4 = None) = (table st = None)"
            using db_insert_table_none [OF ins] s3 by simp
          show ?thesis
          proof (cases r4)
            case (Inl e)
            then show ?thesis
              using run index_file_hashed [OF nf sz rd, of st] sel found None ins m by auto
          next
            case (Inr u)
            then show ?thesis
              using run index_file_hashed [OF nf sz rd, of st] sel found None ins m by auto
          qed
        qed
      qed
    qed
  qed
qed

lemma index_entries_table_none:
  "index_entries w pats es st = (res, st') \<Longrightarrow> (table st' = None) = (table st = None)"
proof (induction es arbitrary: st)
  case Nil
  then show ?case by simp
next
  case (Cons x es)
  obtain root name where x: "x = (root, name)" by (cases x) auto
  obtain r1 s1 where step: "index_file w pats root name st = (r1, s1)"
    by (cases "index_file w pats root name st") auto
  have m1: "(table s1 = None) = (table st = None)" using index_file_table_none [OF step] .
  show ?case
  proof (cases r1)
    case (Inl e)
    then show ?thesis using Cons.prems step m1 by (simp add: x)
  next
    case (Inr u)
    then have "index_entries w pats es s1 = (res, st')" using Cons.prems step by (simp add: x)
    then have "(table st' = None) = (table s1 = None)" by (rule Cons.IH)
    with m1 show ?thesis by simp
  qed
qed

lemma inserted_append: "inserted (xs @ ys) = inserted xs @ inserted ys"
  by (induction xs rule: inserted.induct) simp_all

lemma trace_only_hashes [simp]: "stored_hashes (st\<lparr>trace := t\<rparr>) = stored_hashes st"
  by (simp add: stored_hashes_def table_rows_def)

lemma index_file_rerun:
  assumes step: "index_file w pats root name sa = (Inr u, sa1)"
    and sub: "stored_hashes sa1 \<subseteq> stored_hashes s"
  shows "\<exists>evs. index_file w pats root name s = (Inr (), s\<lparr>trace := trace s @ evs\<rparr>) \<and>
               inserted evs = []"
proof (cases "name = ''.exclude_patterns'' \<or> should_exclude w (path_join root name) pats")
  case True
  have "index_file w pats root name s = (Inr (), s\<lparr>trace := trace s @ []\<rparr>)"
    using index_file_filtered [OF True, of s] by simp
  moreover have "inserted [] = []" by simp
  ultimately show ?thesis by blast
next
  case False
  then have nf: "name \<noteq> ''.exclude_patterns''" "\<not> should_exclude w (path_join root name) pats"
    by auto
  obtain fsize where sz: "getsize w (path_join root name) = Inr fsize"
    using index_file_getsize_ok [OF step nf] by blast
  let ?p = "path_join root name"
  show ?thesis
  proof (cases "read_bytes w ?p")
    case (Inl e)
    have "index_file w pats root name s = (Inr (), s\<lparr>trace := trace s @ [Getsize ?p, ReadBytes ?p]\<rparr>)"
      using index_file_unreadable [OF nf sz Inl, of s] by (simp add: emit_def)
    moreover have "inserted [Getsize ?p, ReadBytes ?p] = []" by simp
    ultimately show ?thesis by blast
  next
    case (Inr content)
    have "md5_hexdigest w content \<in> stored_hashes s"
      using index_file_leaves_hash [OF step nf Inr] sub by blast
    then have "index_file w pats root name s =
        (Inr (), s\<lparr>trace := trace s @ [Getsize ?p, ReadBytes ?p, Select (md5_hexdigest w content)]\<rparr>)"
      using index_file_known_hash [OF nf sz Inr, of s] by (simp add: emit_def)
    moreover have "inserted [Getsize ?p, ReadBytes ?p, Select (md5_hexdigest w content)] = []"
      by simp
    ultimately show ?thesis by blast
  qed
qed

lemma index_entries_rerun:
  assumes "index_entries w pats es sa = (Inr u, sb)"
    and "stored_hashes sb \<subseteq> stored_hashes s"
  shows "\<exists>evs. index_entries w pats es s = (Inr (), s\<lparr>trace := trace s @ evs\<rparr>) \<and>
               inserted evs = []"
  using assms
proof (induction es arbitrary: sa s)
  case Nil
  have "index_entries w pats [] s = (Inr (), s\<lparr>trace := trace s @ []\<rparr>)" by simp
  moreover have "inserted [] = []" by simp
  ultimately show ?case by blast
next
  case (Cons x es)
  obtain root name where x: "x = (root, name)" by (cases x) auto
  obtain r1 sa1 where step0: "index_file w pats root name sa = (r1, sa1)"
    by (cases "index_file w pats root name sa") auto
  have r1: "r1 = Inr ()" using Cons.prems(1) step0 by (cases r1) (simp_all add: x)
  have step: "index_file w pats root name sa = (Inr (), sa1)" using step0 r1 by simp
  have rest: "index_entries w pats es sa1 = (Inr u, sb)" using Cons.prems(1) step by (simp add: x)
  have "stored_hashes sa1 \<subseteq> stored_hashes sb" using index_entries_mono [OF rest] .
  then have sub1: "stored_hashes sa1 \<subseteq> stored_hashes s" using Cons.prems(2) by blast
  obtain evs1 where e1: "index_file w pats root name s = (Inr (), s\<lparr>trace := trace s @ evs1\<rparr>)"
    and n1: "inserted evs1 = []"
    using index_file_rerun [OF step sub1] by blast
  let ?s1 = "s\<lparr>trace := trace s @ evs1\<rparr>"
  have "stored_hashes sb \<subseteq> stored_hashes ?s1" using Cons.prems(2) by simp
  then obtain evs2 where e2: "index_entries w pats es ?s1 = (Inr (), ?s1\<lparr>trace := trace ?s1 @ evs2\<rparr>)"
    and n2: "inserted evs2 = []"
    using Cons.IH [OF rest, of ?s1] by blast
  have "index_entries w pats (x # es) s = (Inr (), s\<lparr>trace := trace s @ (evs1 @ evs2)\<rparr>)"
    using e1 e2 by (simp add: x)
  moreover have "inserted (evs1 @ evs2) = []" using n1 n2 by (simp add: inserted_append)
  ultimately show ?case by blast
qed
lemma index_entries_leaves_hash:
  assumes "index_entries w pats es st = (Inr u, st')"
    and "(root, name) \<in> set es"
    and "name \<noteq> ''.exclude_patterns''"
    and "\<not> should_exclude w (path_join root name) pats"
    and "read_bytes w (path_join root name) = Inr content"
  shows "md5_hexdigest w content \<in> stored_hashes st'"
  using assms(1,2)
proof (induction es arbitrary: st)
  case Nil
  then show ?case by simp
next
  case (Cons x es)
  obtain root' name' where x: "x = (root', name')" by (cases x) auto
  obtain r1 s1 where step0: "index_file w pats root' name' st = (r1, s1)"
    by (cases "index_file w pats root' name' st") auto
  have r1: "r1 = Inr ()" using Cons.prems(1) step0 by (cases r1) (simp_all add: x)
  have step: "index_file w pats root' name' st = (Inr (), s1)" using step0 r1 by simp
  have rest: "index_entries w pats es s1 = (Inr u, st')" using Cons.prems(1) step by (simp add: x)
  show ?case
  proof (cases "(root, name) = x")
    case True
    then have "index_file w pats root name st = (Inr (), s1)" using step x by simp
    then have "md5_hexdigest w content \<in> stored_hashes s1"
      using index_file_leaves_hash assms(3,4,5) by blast
    then show ?thesis using index_entries_mono [OF rest] by blast
  next
    case False
    then have "(root, name) \<in> set es" using Cons.prems(2) by simp
    then show ?thesis using Cons.IH [OF rest] by blast
  qed
qed

lemma index_file_duplicate:
  assumes known: "md5_hexdigest w content \<in> stored_hashes st"
    and rd: "read_bytes w (path_join root name) = Inr content"
  shows "\<exists>res evs. index_file w pats root name st = (res, st\<lparr>trace := trace st @ evs\<rparr>) \<and>
           inserted evs = [] \<and>
           (res = Inr () \<or> (\<exists>e. getsize w (path_join root name) = Inl e \<and> res = Inl e))"
proof (cases "name = ''.exclude_patterns'' \<or> should_exclude w (path_join root name) pats")
  case True
  have "index_file w pats root name st = (Inr (), st\<lparr>trace := trace st @ []\<rparr>)"
    using index_file_filtered [OF True, of st] by simp
  moreover have "inserted [] = []" by simp
  ultimately show ?thesis by blast
next
  case False
  then have nf: "name \<noteq> ''.exclude_patterns''" "\<not> should_exclude w (path_join root name) pats"
    by auto
  let ?p = "path_join root name"
  show ?thesis
  proof (cases "getsize w ?p")
    case (Inl e)
    have "index_file w pats root name st = (Inl e, st\<lparr>trace := trace st @ [Getsize ?p]\<rparr>)"
      using index_file_getsize_raises [OF nf Inl, of st] by (simp add: emit_def)
    moreover have "inserted [Getsize ?p] = []" by simp
    ultimately show ?thesis using Inl by blast
  next
    case (Inr fsize)
    have "index_file w pats root name st =
        (Inr (), st\<lparr>trace := trace st @ [Getsize ?p, ReadBytes ?p, Select (md5_hexdigest w content)]\<rparr>)"
      using index_file_known_hash [OF nf Inr rd known] by (simp add: emit_def)
    moreover have "inserted [Getsize ?p, ReadBytes ?p, Select (md5_hexdigest w content)] = []"
      by simp
    ultimately show ?thesis by blast
  qed
qed

lemma create_database_hashes [simp]: "stored_hashes (create_database w st) = stored_hashes st"
  by (simp add: create_database_def stored_hashes_def table_rows_def emit_def)

lemma create_database_table:
  "table (create_database w st) = (if create_ok w then Some (table_rows st) else table st)"
  by (simp add: create_database_def emit_def)

lemma create_database_trace:
  "\<exists>evs. create_database w st = st\<lparr>table := table (create_database w st), trace := trace st @ evs\<rparr> \<and>
         inserted evs = []"
proof (cases "create_ok w")
  case True
  then have "create_database w st =
      st\<lparr>table := table (create_database w st), trace := trace st @ [CreateTable, Commit]\<rparr>"
    by (simp add: create_database_def emit_def)
  moreover have "inserted [CreateTable, Commit] = []" by simp
  ultimately show ?thesis by blast
next
  case False
  then have "create_database w st =
      st\<lparr>table := table (create_database w st), trace := trace st @ [CreateTable]\<rparr>"
    by (simp add: create_database_def emit_def)
  moreover have "inserted [CreateTable] = []" by simp
  ultimately show ?thesis by blast
qed

lemma load_patterns_fst:
  "fst (load_exclusion_patterns w directory st) = fst (load_exclusion_patterns w directory st')"
  by (simp add: load_exclusion_patterns_def Let_def split: sum.split)

lemma load_patterns_snd:
  "\<exists>evs. snd (load_exclusion_patterns w directory st) = st\<lparr>trace := trace st @ evs\<rparr> \<and>
         inserted evs = []"
proof -
  let ?p = "path_join directory ''.exclude_patterns''"
  have "snd (load_exclusion_patterns w directory st) = st\<lparr>trace := trace st @ [PathExists ?p]\<rparr> \<or>
        snd (load_exclusion_patterns w directory st) =
          st\<lparr>trace := trace st @ [PathExists ?p, ReadLines ?p]\<rparr>"
    by (simp add: load_exclusion_patterns_def Let_def emit_def split: sum.split)
  moreover have "inserted [PathExists ?p] = []" "inserted [PathExists ?p, ReadLines ?p] = []"
    by simp_all
  ultimately show ?thesis by blast
qed
lemma stored_hashes_cong: "table s = table s' \<Longrightarrow> stored_hashes s = stored_hashes s'"
  by (simp add: stored_hashes_def table_rows_def)

lemma indexer_unfold:
  "connect_ok w \<Longrightarrow> indexer w directory table0 =
     (case index_entries w
             (fst (load_exclusion_patterns w directory
                (create_database w \<lparr>table = table0, file_index = [], trace = [Connect]\<rparr>)))
             (walk_entries (os_walk w directory))
             (emit (Walk directory)
                ((snd (load_exclusion_patterns w directory
                   (create_database w \<lparr>table = table0, file_index = [], trace = [Connect]\<rparr>)))
                 \<lparr>file_index := []\<rparr>)) of
        (Inl e, st3) \<Rightarrow> (Raised e, st3)
      | (Inr u, st3) \<Rightarrow> (Completed (length (file_index st3)), emit Close st3))"
  by (simp add: indexer_def index_directory_def index_walk_entries Let_def
      split: prod.split sum.split)

lemma indexer_rerun:
  assumes run: "indexer w directory table0 = (Completed n, st1)"
  shows "\<exists>st2. indexer w directory (table st1) = (Completed 0, st2) \<and>
               table st2 = table st1 \<and> inserted (trace st2) = []"
proof -
  have con: "connect_ok w"
  proof (rule ccontr)
    assume "\<not> connect_ok w"
    then have "fst (indexer w directory table0) = ConnectFailed" by (simp add: indexer_def)
    then show False using run by simp
  qed
  define sA0 where "sA0 = \<lparr>table = table0, file_index = [], trace = [Connect]\<rparr>"
  define sA1 where "sA1 = create_database w sA0"
  define pats where "pats = fst (load_exclusion_patterns w directory sA1)"
  define sA2 where "sA2 = snd (load_exclusion_patterns w directory sA1)"
  define startA where "startA = emit (Walk directory) (sA2\<lparr>file_index := []\<rparr>)"
  define es where "es = walk_entries (os_walk w directory)"
  obtain rA sA3 where loopA: "index_entries w pats es startA = (rA, sA3)"
    by (cases "index_entries w pats es startA") auto
  have unfoldA: "indexer w directory table0 =
      (case rA of Inl e \<Rightarrow> (Raised e, sA3)
       | Inr u \<Rightarrow> (Completed (length (file_index sA3)), emit Close sA3))"
    using indexer_unfold [OF con, of directory table0] loopA
    by (simp add: sA0_def sA1_def pats_def sA2_def startA_def es_def split: sum.split)
  have rA: "rA = Inr ()" using unfoldA run by (cases rA) simp_all
  have st1: "st1 = emit Close sA3" using unfoldA run rA by simp
  have t1: "table st1 = table sA3" by (simp add: st1)
  have loopA': "index_entries w pats es startA = (Inr (), sA3)" using loopA rA by simp
  define sB0 where "sB0 = \<lparr>table = table sA3, file_index = [], trace = [Connect]\<rparr>"
  define sB1 where "sB1 = create_database w sB0"
  obtain evsA where sA2': "sA2 = sA1\<lparr>trace := trace sA1 @ evsA\<rparr>"
    using load_patterns_snd [of w directory sA1] sA2_def by blast
  have tB1: "table sB1 = table sA3"
  proof (cases "create_ok w")
    case True
    then have "table sA1 \<noteq> None" by (simp add: sA1_def create_database_table)
    then have "table startA \<noteq> None" by (simp add: startA_def sA2')
    then have "table sA3 \<noteq> None" using index_entries_table_none [OF loopA'] by simp
    then obtain rows where "table sA3 = Some rows" by blast
    then show ?thesis using True
      by (simp add: sB1_def sB0_def create_database_table table_rows_def)
  next
    case False
    then show ?thesis by (simp add: sB1_def sB0_def create_database_table)
  qed
  obtain evsC where sB1': "sB1 = sB0\<lparr>table := table sB1, trace := trace sB0 @ evsC\<rparr>"
    and nC: "inserted evsC = []"
    using create_database_trace [of w sB0] sB1_def by metis
  have patsB: "fst (load_exclusion_patterns w directory sB1) = pats"
    unfolding pats_def by (rule load_patterns_fst)
  obtain evsL where sB2: "snd (load_exclusion_patterns w directory sB1) = sB1\<lparr>trace := trace sB1 @ evsL\<rparr>"
    and nL: "inserted evsL = []"
    using load_patterns_snd [of w directory sB1] by blast
  define startB where "startB = emit (Walk directory) (sB1\<lparr>trace := trace sB1 @ evsL, file_index := []\<rparr>)"
  have tB: "table startB = table sA3" by (simp add: startB_def tB1)
  have "stored_hashes sA3 \<subseteq> stored_hashes startB"
    using stored_hashes_cong [OF tB] by simp
  then obtain evs where loopB: "index_entries w pats es startB = (Inr (), startB\<lparr>trace := trace startB @ evs\<rparr>)"
    and nE: "inserted evs = []"
    using index_entries_rerun [OF loopA'] by blast
  define st2 where "st2 = emit Close (startB\<lparr>trace := trace startB @ evs\<rparr>)"
  have fiB: "file_index startB = []" by (simp add: startB_def)
  have "indexer w directory (table st1) = (Completed 0, st2)"
    using indexer_unfold [OF con, of directory "table st1"] loopB
    by (simp add: t1 sB0_def [symmetric] sB1_def [symmetric] patsB sB2 startB_def [symmetric]
        es_def [symmetric] st2_def fiB)
  moreover have "table st2 = table st1" by (simp add: st2_def tB t1)
  moreover have "inserted (trace st2) = []"
  proof -
    have "trace sB1 = trace sB0 @ evsC" by (subst sB1') simp
    then have "trace sB1 = [Connect] @ evsC" by (simp add: sB0_def)
    then have "trace st2 = [Connect] @ evsC @ evsL @ [Walk directory] @ evs @ [Close]"
      by (simp add: st2_def startB_def)
    then show ?thesis using nC nL nE by (simp add: inserted_append)
  qed
  ultimately show ?thesis by blast
qed

lemma index_file_new_hash:
  assumes nf: "name \<noteq> ''.exclude_patterns''" "\<not> should_exclude w (path_join root name) pats"
    and sz: "getsize w (path_join root name) = Inr fsize"
    and rd: "read_bytes w (path_join root name) = Inr content"
    and tbl: "table st = Some rows"
    and new: "md5_hexdigest w content \<notin> stored_hashes st"
    and alone: "other_sessions w (path_join root name) = []"
    and entry: "entry = \<lparr>file_name = name, path = path_join root name,
                     md5_hash = md5_hexdigest w content, file_size = fsize,
                     category = detect_category (path_join root name) (snd (splitext name))\<rparr>"
  shows "index_file w pats root name st =
           (Inr (), st\<lparr>table := Some (rows @ [entry]),
                        file_index := file_index st @ [entry],
                        trace := trace st @ [Getsize (path_join root name), ReadBytes (path_join root name),
                                   Select (md5_hexdigest w content), Insert entry, Commit]\<rparr>)"
proof -
  let ?p = "path_join root name"
  let ?h = "md5_hexdigest w content"
  let ?s2 = "emit (ReadBytes ?p) (emit (Getsize ?p) st)"
  have absent: "?h \<notin> set (map md5_hash rows)"
    using new tbl by (simp add: stored_hashes_def table_rows_def)
  then have "find (\<lambda>r. md5_hash r = ?h) rows = None"
    unfolding find_None_iff by force
  then have sel: "db_select ?h ?s2 = (Inr None, emit (Select ?h) ?s2)"
    using tbl by (simp add: db_select_def emit_def)
  have ins: "db_insert w entry (emit (Select ?h) ?s2) =
      (Inr (), emit Commit (emit (Insert entry) ((emit (Select ?h) ?s2)\<lparr>table := Some (rows @ [entry])\<rparr>)))"
    using tbl absent alone by (simp add: db_insert_def add_row_def emit_def entry)
  show ?thesis
    using index_file_hashed [OF nf sz rd, of st] sel ins
    by (simp add: entry [symmetric] emit_def)
qed

lemma duplicate_inserts_nothing:
  assumes known: "md5_hexdigest w content \<in> stored_hashes st"
    and rd: "read_bytes w (path_join root name) = Inr content"
  shows "inserts_nothing w pats root name st"
proof -
  obtain res evs where run: "index_file w pats root name st = (res, st\<lparr>trace := trace st @ evs\<rparr>)"
    and none: "inserted evs = []"
    and res: "res = Inr () \<or> (\<exists>e. getsize w (path_join root name) = Inl e \<and> res = Inl e)"
    using index_file_duplicate [OF known rd, of pats] by blast
  show ?thesis
  proof (cases "getsize w (path_join root name)")
    case (Inl e)
    then show ?thesis using run none res
      by (auto simp: inserts_nothing_def inserted_append)
  next
    case (Inr fsize)
    then show ?thesis using run none res
      by (auto simp: inserts_nothing_def inserted_append)
  qed
qed

text \<open>
  C2. (1) A file that is not filtered out, whose size and bytes can be read and whose
  digest is not in the table yet, gets one row when no other session writes: the row is
  appended to the table and to \<open>file_index\<close>. (2) Once a file has gone through the loop
  body without being filtered out, any file with the same bytes that the loop reaches
  later in the run adds no row. (3) The same holds for a file met in a later run against
  the store that a completed walk left behind. (4) A second run of \<open>indexer\<close> in the same world, against the store a completed run left,
  completes with count \<open>0\<close>, leaves the table as it was and issues no \<open>INSERT\<close>.
  Here \<open>index_entries\<close> is the pair of nested loops of \<open>_index_directory\<close> (lemma
  \<open>index_walk_entries\<close>).
\<close>

theorem duplicate_content_indexed_once:
  "(name1 \<noteq> ''.exclude_patterns'' \<and> \<not> should_exclude w (path_join root1 name1) pats \<and>
    getsize w (path_join root1 name1) = Inr fsize \<and>
    read_bytes w (path_join root1 name1) = Inr content \<and>
    table st0 = Some rows \<and> md5_hexdigest w content \<notin> stored_hashes st0 \<and>
    other_sessions w (path_join root1 name1) = [] \<longrightarrow>
      (\<exists>entry. index_file w pats root1 name1 st0 =
          (Inr (), st0\<lparr>table := Some (rows @ [entry]),
             file_index := file_index st0 @ [entry],
             trace := trace st0 @
               [Getsize (path_join root1 name1), ReadBytes (path_join root1 name1),
                Select (md5_hexdigest w content), Insert entry, Commit]\<rparr>) \<and>
          file_name entry = name1 \<and> path entry = path_join root1 name1 \<and>
          md5_hash entry = md5_hexdigest w content \<and> file_size entry = fsize \<and>
          category entry = detect_category (path_join root1 name1) (snd (splitext name1)))) \<and>
   (index_entries w pats ((root1, name1) # between) st0 = (Inr (), st2) \<and>
    name1 \<noteq> ''.exclude_patterns'' \<and> \<not> should_exclude w (path_join root1 name1) pats \<and>
    read_bytes w (path_join root1 name1) = Inr content \<and>
    read_bytes w (path_join root2 name2) = Inr content \<longrightarrow>
      inserts_nothing w pats root2 name2 st2) \<and>
   (index_directory w directory pats st = (Inr idx, st1) \<and>
    (root1, name1) \<in> set (walk_entries (os_walk w directory)) \<and>
    name1 \<noteq> ''.exclude_patterns'' \<and> \<not> should_exclude w (path_join root1 name1) pats \<and>
    read_bytes w (path_join root1 name1) = Inr content \<and>
    table later_start = table st1 \<and>
    index_entries w' pats' before later_start = (Inr (), st') \<and>
    md5_hexdigest w' = md5_hexdigest w \<and>
    read_bytes w' (path_join root2 name2) = Inr content \<longrightarrow>
      inserts_nothing w' pats' root2 name2 st') \<and>
   (indexer w directory table0 = (Completed n, finished) \<longrightarrow>
      (\<exists>again. indexer w directory (table finished) = (Completed 0, again) \<and>
          table again = table finished \<and> inserted (trace again) = []))"
proof (intro conjI impI)
  assume a: "name1 \<noteq> ''.exclude_patterns'' \<and> \<not> should_exclude w (path_join root1 name1) pats \<and>
    getsize w (path_join root1 name1) = Inr fsize \<and>
    read_bytes w (path_join root1 name1) = Inr content \<and>
    table st0 = Some rows \<and> md5_hexdigest w content \<notin> stored_hashes st0 \<and>
    other_sessions w (path_join root1 name1) = []"
  define entry where "entry = \<lparr>file_name = name1, path = path_join root1 name1,
                     md5_hash = md5_hexdigest w content, file_size = fsize,
                     category = detect_category (path_join root1 name1) (snd (splitext name1))\<rparr>"
  have "index_file w pats root1 name1 st0 =
          (Inr (), st0\<lparr>table := Some (rows @ [entry]),
             file_index := file_index st0 @ [entry],
             trace := trace st0 @
               [Getsize (path_join root1 name1), ReadBytes (path_join root1 name1),
                Select (md5_hexdigest w content), Insert entry, Commit]\<rparr>)"
    using index_file_new_hash [of name1 w root1 pats fsize content st0 rows entry] a entry_def
    by blast
  moreover have "file_name entry = name1 \<and> path entry = path_join root1 name1 \<and>
          md5_hash entry = md5_hexdigest w content \<and> file_size entry = fsize \<and>
          category entry = detect_category (path_join root1 name1) (snd (splitext name1))"
    by (simp add: entry_def)
  ultimately show "\<exists>entry. index_file w pats root1 name1 st0 =
          (Inr (), st0\<lparr>table := Some (rows @ [entry]),
             file_index := file_index st0 @ [entry],
             trace := trace st0 @
               [Getsize (path_join root1 name1), ReadBytes (path_join root1 name1),
                Select (md5_hexdigest w content), Insert entry, Commit]\<rparr>) \<and>
          file_name entry = name1 \<and> path entry = path_join root1 name1 \<and>
          md5_hash entry = md5_hexdigest w content \<and> file_size entry = fsize \<and>
          category entry = detect_category (path_join root1 name1) (snd (splitext name1))"
    by blast
next
  assume a: "index_entries w pats ((root1, name1) # between) st0 = (Inr (), st2) \<and>
    name1 \<noteq> ''.exclude_patterns'' \<and> \<not> should_exclude w (path_join root1 name1) pats \<and>
    read_bytes w (path_join root1 name1) = Inr content \<and>
    read_bytes w (path_join root2 name2) = Inr content"
  then have "md5_hexdigest w content \<in> stored_hashes st2"
    using index_entries_leaves_hash [of w pats "(root1, name1) # between" st0 "()" st2 root1 name1 content]
    by simp
  then show "inserts_nothing w pats root2 name2 st2"
    using duplicate_inserts_nothing a by blast
next
  assume a: "index_directory w directory pats st = (Inr idx, st1) \<and>
    (root1, name1) \<in> set (walk_entries (os_walk w directory)) \<and>
    name1 \<noteq> ''.exclude_patterns'' \<and> \<not> should_exclude w (path_join root1 name1) pats \<and>
    read_bytes w (path_join root1 name1) = Inr content \<and>
    table later_start = table st1 \<and>
    index_entries w' pats' before later_start = (Inr (), st') \<and>
    md5_hexdigest w' = md5_hexdigest w \<and>
    read_bytes w' (path_join root2 name2) = Inr content"
  let ?start = "emit (Walk directory) (st\<lparr>file_index := []\<rparr>)"
  obtain r s where loop: "index_entries w pats (walk_entries (os_walk w directory)) ?start = (r, s)"
    by (cases "index_entries w pats (walk_entries (os_walk w directory)) ?start") auto
  have "r = Inr () \<and> s = st1"
    using a loop by (cases r) (simp_all add: index_directory_def index_walk_entries)
  then have "index_entries w pats (walk_entries (os_walk w directory)) ?start = (Inr (), st1)"
    using loop by simp
  then have "md5_hexdigest w content \<in> stored_hashes st1"
    using index_entries_leaves_hash a by blast
  then have "md5_hexdigest w content \<in> stored_hashes later_start"
    using stored_hashes_cong a by blast
  then have "md5_hexdigest w' content \<in> stored_hashes st'"
    using index_entries_mono a by fastforce
  then show "inserts_nothing w' pats' root2 name2 st'"
    using duplicate_inserts_nothing a by blast
next
  assume "indexer w directory table0 = (Completed n, finished)"
  then show "\<exists>again. indexer w directory (table finished) = (Completed 0, again) \<and>
          table again = table finished \<and> inserted (trace again) = []"
    by (rule indexer_rerun)
qed

theorem duplicate_content_indexed_once_witness:
  "getsize demo_world (path_join ''/t/movies'' ''a.mp4'') = Inr 1 \<and>
   table fresh = Some [] \<and> md5_hexdigest demo_world ''X'' \<notin> stored_hashes fresh \<and>
   other_sessions demo_world (path_join ''/t/movies'' ''a.mp4'') = [] \<and>
   (\<exists>entry. index_file demo_world [''[.]tmp$''] ''/t/movies'' ''a.mp4'' fresh =
       (Inr (), fresh\<lparr>table := Some ([] @ [entry]),
          file_index := file_index fresh @ [entry],
          trace := trace fresh @
            [Getsize (path_join ''/t/movies'' ''a.mp4''), ReadBytes (path_join ''/t/movies'' ''a.mp4''),
             Select (md5_hexdigest demo_world ''X''), Insert entry, Commit]\<rparr>) \<and>
       path entry = path_join ''/t/movies'' ''a.mp4'' \<and>
       md5_hash entry = md5_hexdigest demo_world ''X'' \<and>
       category entry = detect_category (path_join ''/t/movies'' ''a.mp4'') (snd (splitext ''a.mp4''))) \<and>
   index_entries demo_world [''[.]tmp$''] [(''/t/movies'', ''a.mp4'')] fresh =
     (Inr (), snd (index_entries demo_world [''[.]tmp$''] [(''/t/movies'', ''a.mp4'')] fresh)) \<and>
   \<not> should_exclude demo_world (path_join ''/t/movies'' ''a.mp4'') [''[.]tmp$''] \<and>
   read_bytes demo_world (path_join ''/t/movies'' ''a.mp4'') = Inr ''X'' \<and>
   read_bytes demo_world (path_join ''/t/backup'' ''a_copy.mp4'') = Inr ''X'' \<and>
   inserts_nothing demo_world [''[.]tmp$''] ''/t/backup'' ''a_copy.mp4''
     (snd (index_entries demo_world [''[.]tmp$''] [(''/t/movies'', ''a.mp4'')] fresh)) \<and>
   fst (index_directory demo_world ''/t'' [''[.]tmp$''] fresh) =
     Inr (file_index (snd (index_directory demo_world ''/t'' [''[.]tmp$''] fresh))) \<and>
   (''/t/movies'', ''a.mp4'') \<in> set (walk_entries (os_walk demo_world ''/t'')) \<and>
   inserts_nothing demo_world [] ''/t/backup'' ''a_copy.mp4''
     (snd (index_directory demo_world ''/t'' [''[.]tmp$''] fresh)) \<and>
   fst (indexer demo_world ''/t'' None) = Completed 2 \<and>
   (\<exists>again. indexer demo_world ''/t'' (table (snd (indexer demo_world ''/t'' None))) =
               (Completed 0, again) \<and>
            table again = table (snd (indexer demo_world ''/t'' None)) \<and>
            inserted (trace again) = [])"
proof -
  let ?pats = "[''[.]tmp$'']"
  let ?s2 = "snd (index_entries demo_world ?pats [(''/t/movies'', ''a.mp4'')] fresh)"
  let ?s1 = "snd (index_directory demo_world ''/t'' ?pats fresh)"
  have h1: "index_entries demo_world ?pats [(''/t/movies'', ''a.mp4'')] fresh = (Inr (), ?s2)"
    by code_simp
  have h2: "''a.mp4'' \<noteq> ''.exclude_patterns''" by simp
  have h3: "\<not> should_exclude demo_world (path_join ''/t/movies'' ''a.mp4'') ?pats"
    by code_simp
  have h4: "read_bytes demo_world (path_join ''/t/movies'' ''a.mp4'') = Inr ''X''"
    by code_simp
  have h5: "read_bytes demo_world (path_join ''/t/backup'' ''a_copy.mp4'') = Inr ''X''"
    by code_simp
  have h6: "index_directory demo_world ''/t'' ?pats fresh = (Inr (file_index ?s1), ?s1)"
    by code_simp
  have h7: "(''/t/movies'', ''a.mp4'') \<in> set (walk_entries (os_walk demo_world ''/t''))"
    by code_simp
  have h8: "index_entries demo_world [] [] ?s1 = (Inr (), ?s1)" by simp
  have h9: "indexer demo_world ''/t'' None = (Completed 2, snd (indexer demo_world ''/t'' None))"
    by code_simp
  have k1: "getsize demo_world (path_join ''/t/movies'' ''a.mp4'') = Inr 1"
    by code_simp
  have k2: "table fresh = Some []" by (simp add: fresh_def)
  have k3: "md5_hexdigest demo_world ''X'' \<notin> stored_hashes fresh"
    by (simp add: fresh_def stored_hashes_def table_rows_def)
  have k4: "other_sessions demo_world (path_join ''/t/movies'' ''a.mp4'') = []"
    by (simp add: demo_world_def)
  note inst = duplicate_content_indexed_once [where w = demo_world and pats = ?pats
      and fsize = 1 and rows = "[]"
      and ?root1.0 = "''/t/movies''" and ?name1.0 = "''a.mp4''" and between = "[]" and ?st0.0 = fresh
      and ?st2.0 = ?s2 and content = "''X''" and ?root2.0 = "''/t/backup''" and ?name2.0 = "''a_copy.mp4''"
      and directory = "''/t''" and st = fresh and idx = "file_index ?s1" and ?st1.0 = ?s1
      and later_start = ?s1 and w' = demo_world and pats' = "[]" and before = "[]" and st' = ?s1
      and ?table0.0 = None and n = 2 and finished = "snd (indexer demo_world ''/t'' None)"]
  have c0: "\<exists>entry. index_file demo_world [''[.]tmp$''] ''/t/movies'' ''a.mp4'' fresh =
       (Inr (), fresh\<lparr>table := Some ([] @ [entry]),
          file_index := file_index fresh @ [entry],
          trace := trace fresh @
            [Getsize (path_join ''/t/movies'' ''a.mp4''), ReadBytes (path_join ''/t/movies'' ''a.mp4''),
             Select (md5_hexdigest demo_world ''X''), Insert entry, Commit]\<rparr>) \<and>
       path entry = path_join ''/t/movies'' ''a.mp4'' \<and>
       md5_hash entry = md5_hexdigest demo_world ''X'' \<and>
       category entry = detect_category (path_join ''/t/movies'' ''a.mp4'') (snd (splitext ''a.mp4''))"
    using inst h2 h3 k1 h4 k2 k3 k4 by blast
  have c1: "inserts_nothing demo_world ?pats ''/t/backup'' ''a_copy.mp4'' ?s2"
    using inst h1 h2 h3 h4 h5 by blast
  have c2: "inserts_nothing demo_world [] ''/t/backup'' ''a_copy.mp4'' ?s1"
    using inst h6 h7 h2 h3 h4 h5 h8 by blast
  have c3: "\<exists>again. indexer demo_world ''/t'' (table (snd (indexer demo_world ''/t'' None))) =
               (Completed 0, again) \<and>
            table again = table (snd (indexer demo_world ''/t'' None)) \<and>
            inserted (trace again) = []"
    using inst h9 by blast
  have g6: "fst (index_directory demo_world ''/t'' ?pats fresh) = Inr (file_index ?s1)"
    using h6 by (metis fst_conv)
  have g9: "fst (indexer demo_world ''/t'' None) = Completed 2"
    using h9 by (metis fst_conv)
  from k1 k2 k3 k4 c0 h1 h3 h4 h5 c1 g6 h7 c2 g9 c3 show ?thesis by blast
qed

section \<open>Exceptions that leave the walk\<close>

text \<open>
  C1. A failure met for one file is not always confined to that file. When another
  session commits a row with the same digest between the lookup and the insert, the
  \<open>INSERT\<close> raises \<open>UniqueViolation\<close>; nothing in \<open>_index_directory\<close> or \<open>indexer\<close>
  catches it, so the run ends with that exception: \<open>b.txt\<close> is never visited and
  \<open>file_index\<close> is lost. The same happens when \<open>os.path.getsize\<close> raises for a dangling
  link. Without either failure the run over the same tree completes with two rows.
\<close>

theorem insert_violation_aborts_run:
  "indexer race_world ''/t'' (Some []) =
     (Raised UniqueViolation,
      \<lparr>table = Some [\<lparr>file_name = ''copy.bin'', path = ''/elsewhere/copy.bin'',
                        md5_hash = ''md5:X'', file_size = 1, category = ''other''\<rparr>],
       file_index = [],
       trace = [Connect, CreateTable, Commit, PathExists ''/t/.exclude_patterns'', Walk ''/t'',
                Getsize ''/t/a.bin'', ReadBytes ''/t/a.bin'', Select ''md5:X'',
                Insert \<lparr>file_name = ''a.bin'', path = ''/t/a.bin'', md5_hash = ''md5:X'',
                         file_size = 1, category = ''other''\<rparr>]\<rparr>) \<and>
   indexer dangling_world ''/t'' (Some []) =
     (Raised OSError,
      \<lparr>table = Some [], file_index = [],
       trace = [Connect, CreateTable, Commit, PathExists ''/t/.exclude_patterns'', Walk ''/t'',
                Getsize ''/t/a.bin'']\<rparr>) \<and>
   fst (indexer plain_world ''/t'' (Some [])) = Completed 2"
  by code_simp

text \<open>
  C3. A failing \<open>CREATE TABLE\<close> does not end the run. \<open>_create_database\<close> catches the
  exception and returns, and \<open>indexer\<close> goes on: it tests for the pattern file, starts the
  walk, asks for the size of the first file, reads and hashes it and sends the lookup.
  With no table the lookup raises, and that exception ends the run.
\<close>

theorem schema_failure_does_not_stop_run:
  "indexer no_schema_world ''/t'' None =
     (Raised UndefinedTable,
      \<lparr>table = None, file_index = [],
       trace = [Connect, CreateTable, PathExists ''/t/.exclude_patterns'', Walk ''/t'',
                Getsize ''/t/a.bin'', ReadBytes ''/t/a.bin'', Select ''md5:X'']\<rparr>)"
  by code_simp

text \<open>
  C9. The connection is closed at the end of a run that completes, and only there. In a
  run whose connection was opened and which an exception leaves, \<open>connection.close()\<close> is
  never called.
\<close>

theorem connection_not_closed_on_exception:
  "connect_ok dangling_world \<and>
   fst (indexer dangling_world ''/t'' (Some [])) = Raised OSError \<and>
   Close \<notin> set (trace (snd (indexer dangling_world ''/t'' (Some [])))) \<and>
   last (trace (snd (indexer plain_world ''/t'' (Some [])))) = Close"
  by code_simp

end
